theory Spec2Isabelle
  imports Main
begin

section \<open>Shared data model\<close>

text \<open>
  The syntax tree, the inferred values and the evaluation contexts come from collaborators of
  \<^verbatim>\<open>jedi/inference/arguments.py\<close>. They are modelled by the interface the module uses:
  a tree node has a \<^verbatim>\<open>type\<close>; a leaf has a \<^verbatim>\<open>value\<close> and a start position, an inner node
  has \<^verbatim>\<open>children\<close>. Values and contexts are compared by identity, so they are handles.
\<close>

type_synonym ctx = nat

datatype node =
    Leaf string string "nat \<times> nat"
  | Node string "node list"

datatype val =
    ValueRef nat
  | FakeSequence string "lazy_value list"
  | GeneratorComprehension ctx node node
and lazy_value =
    LazyKnownValue val
  | LazyKnownValues "val list"
  | LazyTreeValue ctx node
  | MergedLazyValues "lazy_value list"

section \<open>\<^verbatim>\<open>try_iter_content\<close>\<close>

text \<open>
  \<^verbatim>\<open>typ.py__iter__\<close> either raises \<^verbatim>\<open>AttributeError\<close> (\<open>None\<close>) or is a method whose call gives
  the lazy elements; \<^verbatim>\<open>lazy_value.infer()\<close> gives a value set. Both belong to the inference
  engine and are parameters. The function returns nothing; what it does is the sequence of
  \<^verbatim>\<open>py__iter__()\<close> calls it makes, which the model returns together with the \<^verbatim>\<open>depth\<close> of the
  invocation making each call.
\<close>

function try_iter_content ::
  "(val \<Rightarrow> lazy_value list option) \<Rightarrow> (lazy_value \<Rightarrow> val list) \<Rightarrow> val list \<Rightarrow> nat \<Rightarrow> (nat \<times> val) list"
where
  "try_iter_content py_iter infer types depth =
     (if depth > 10 then []
      else concat (map (\<lambda>typ.
             case py_iter typ of
               None \<Rightarrow> []
             | Some lazies \<Rightarrow>
                 (depth, typ) #
                 concat (map (\<lambda>lazy. try_iter_content py_iter infer (infer lazy) (depth + 1)) lazies))
           types))"
  by pat_completeness auto
termination
  by (relation "measure (\<lambda>(py_iter, infer, types, depth). 11 - depth)") auto

declare try_iter_content.simps [simp del]

text \<open>A value that iterates into itself: its only element infers to the value again.\<close>

definition self_referential_iter :: "val \<Rightarrow> lazy_value list option" where
  "self_referential_iter v =
     (if v = ValueRef 0 then Some [LazyKnownValue (ValueRef 0)] else None)"

fun known_infer :: "lazy_value \<Rightarrow> val list" where
  "known_infer (LazyKnownValue v) = [v]"
| "known_infer (LazyKnownValues vs) = vs"
| "known_infer _ = []"

section \<open>Syntax tree access\<close>

text \<open>
  The exceptions the module can raise. Reading an attribute an object does not have raises
  \<^verbatim>\<open>AttributeError\<close>, indexing past the end raises \<^verbatim>\<open>IndexError\<close>, and a \<^verbatim>\<open>StopIteration\<close>
  that escapes from \<^verbatim>\<open>next\<close> inside a generator body surfaces as \<^verbatim>\<open>RuntimeError\<close> (PEP 479).
\<close>

datatype py_error =
    AttributeError
  | IndexError
  | KeyError
  | AssertionError
  | RuntimeError
  | NotImplementedError
  | ParamIssue

fun node_type :: "node \<Rightarrow> string" where
  "node_type (Leaf t v p) = t"
| "node_type (Node t cs) = t"

fun children :: "node \<Rightarrow> py_error + node list" where
  "children (Leaf t v p) = Inl AttributeError"
| "children (Node t cs) = Inr cs"

fun leaf_value :: "node \<Rightarrow> py_error + string" where
  "leaf_value (Leaf t v p) = Inr v"
| "leaf_value (Node t cs) = Inl AttributeError"

text \<open>
  \<^verbatim>\<open>child == ','\<close>: only operator and keyword leaves compare equal to a string, by their
  value; every other node compares by identity and is never equal to a string.
\<close>

fun eq_str :: "node \<Rightarrow> string \<Rightarrow> bool" where
  "eq_str (Leaf t v p) s = ((t = ''operator'' \<or> t = ''keyword'') \<and> v = s)"
| "eq_str (Node t cs) s = False"

text \<open>\<^verbatim>\<open>child in ('*', '**')\<close>\<close>

definition is_star :: "node \<Rightarrow> bool" where
  "is_star n = (eq_str n ''*'' \<or> eq_str n ''**'')"

text \<open>\<^verbatim>\<open>len(child.value)\<close> for a node that passed \<^verbatim>\<open>is_star\<close> (a leaf).\<close>

fun star_len :: "node \<Rightarrow> nat" where
  "star_len (Leaf t v p) = length v"
| "star_len (Node t cs) = 0"

section \<open>\<^verbatim>\<open>unpack_arglist\<close>\<close>

text \<open>
  A generator is modelled by what it yields and the exception that ends it, if any:
  the pair of the list of items and an optional error raised after the last item.
\<close>

type_synonym 'a generator = "'a list \<times> py_error option"

definition yield_then :: "'a \<Rightarrow> 'a generator \<Rightarrow> 'a generator" where
  "yield_then x g = (x # fst g, snd g)"

definition raise_now :: "py_error \<Rightarrow> 'a generator" where
  "raise_now e = ([], Some e)"

text \<open>The loop \<^verbatim>\<open>for child in iterator\<close> over \<^verbatim>\<open>arglist.children\<close>.\<close>

fun unpack_children :: "node list \<Rightarrow> (nat \<times> node) generator" where
  "unpack_children [] = ([], None)"
| "unpack_children (child # rest) =
     (if eq_str child '','' then unpack_children rest
      else if is_star child then
        (case rest of
           [] \<Rightarrow> raise_now RuntimeError
         | nxt # rest' \<Rightarrow> yield_then (star_len child, nxt) (unpack_children rest'))
      else if node_type child = ''argument'' then
        (case children child of
           Inl e \<Rightarrow> raise_now e
         | Inr cs \<Rightarrow>
             (case cs of
                [] \<Rightarrow> raise_now IndexError
              | c0 # _ \<Rightarrow>
                  if is_star c0 then
                    (if length cs = 2
                     then yield_then (star_len c0, cs ! 1) (unpack_children rest)
                     else raise_now AssertionError)
                  else yield_then (0, child) (unpack_children rest)))
      else yield_then (0, child) (unpack_children rest))"

definition unpack_arglist :: "node option \<Rightarrow> (nat \<times> node) generator" where
  "unpack_arglist arglist =
     (case arglist of
        None \<Rightarrow> ([], None)
      | Some a \<Rightarrow>
          if node_type a = ''arglist'' \<or> node_type a = ''testlist'' then
            (case children a of Inl e \<Rightarrow> raise_now e | Inr cs \<Rightarrow> unpack_children cs)
          else if node_type a = ''argument'' then
            (case children a of
               Inl e \<Rightarrow> raise_now e
             | Inr cs \<Rightarrow>
                 (case cs of
                    [] \<Rightarrow> raise_now IndexError
                  | c0 # _ \<Rightarrow> if is_star c0 then unpack_children cs else ([(0, a)], None)))
          else ([(0, a)], None))"

section \<open>The inference engine and the issue collector\<close>

text \<open>
  What the module asks of the values it is given. \<open>infer_node\<close> is \<^verbatim>\<open>context.infer_node\<close>;
  \<open>py_getattribute\<close> is \<^verbatim>\<open>value.py__getattribute__\<close>; \<open>py_iter\<close> is \<^verbatim>\<open>value.py__iter__\<close>, \<open>None\<close>
  when reading the attribute raises \<^verbatim>\<open>AttributeError\<close>; \<open>class_of\<close> answers the two
  \<^verbatim>\<open>isinstance\<close> tests of \<^verbatim>\<open>_star_star_dict\<close> together with \<^verbatim>\<open>name.string_name\<close> and
  \<^verbatim>\<open>array_type\<close>; \<open>lazy_infer\<close> is \<^verbatim>\<open>lazy_value.infer()\<close>. A value set is the list of its
  members in iteration order; \<^verbatim>\<open>NO_VALUES\<close> is the empty one.
\<close>

datatype val_class =
    CompiledInstance string
  | Sequence string
  | OtherValue

record engine =
  infer_node :: "ctx \<Rightarrow> node \<Rightarrow> val list"
  py_getattribute :: "val \<Rightarrow> string \<Rightarrow> val list"
  py_iter :: "val \<Rightarrow> lazy_value list option"
  class_of :: "val \<Rightarrow> val_class"
  exact_key_items :: "val \<Rightarrow> (string \<times> lazy_value) list"
  lazy_infer :: "lazy_value \<Rightarrow> val list"

definition NO_VALUES :: "val list" where
  "NO_VALUES = []"

text \<open>
  A call \<^verbatim>\<open>analysis.add(context, error_name, input_node, message=m)\<close>. The message is a fixed
  format for each error name, filled with \<^verbatim>\<open>funcdef.name.value\<close> and the offending value,
  which are the last two fields. The optional \<^verbatim>\<open>funcdef\<close> argument is modelled by the name
  it carries.
\<close>

datatype issue = Issue ctx string node string val

text \<open>\<^verbatim>\<open>_iterate_star_args\<close>: the issues it reports and the lazy values it yields.\<close>

definition iterate_star_args ::
  "engine \<Rightarrow> ctx \<Rightarrow> val \<Rightarrow> node \<Rightarrow> string option \<Rightarrow> issue list \<times> lazy_value list"
where
  "iterate_star_args E context array input_node funcdef =
     ((if py_getattribute E array ''__iter__'' = [] then
         (case funcdef of
            None \<Rightarrow> []
          | Some name \<Rightarrow> [Issue context ''type-error-star'' input_node name array])
       else []),
      (case py_iter E array of None \<Rightarrow> [] | Some lazies \<Rightarrow> lazies))"

text \<open>\<^verbatim>\<open>_star_star_dict\<close>: the issues it reports and the items of what it returns.\<close>

definition star_star_dict ::
  "engine \<Rightarrow> ctx \<Rightarrow> val \<Rightarrow> node \<Rightarrow> string option \<Rightarrow> issue list \<times> (string \<times> lazy_value) list"
where
  "star_star_dict E context array input_node funcdef =
     (if class_of E array = CompiledInstance ''dict'' then ([], [])
      else if class_of E array = Sequence ''dict'' then ([], exact_key_items E array)
      else
        ((case funcdef of
            None \<Rightarrow> []
          | Some name \<Rightarrow> [Issue context ''type-error-star-star'' input_node name array]),
         []))"

text \<open>\<^verbatim>\<open>zip_longest(*iterators)\<close> with the fill value \<^verbatim>\<open>None\<close>.\<close>

definition zip_longest :: "'a list list \<Rightarrow> 'a option list list" where
  "zip_longest xss =
     map (\<lambda>i. map (\<lambda>xs. if i < length xs then Some (xs ! i) else None) xss)
       [0 ..< foldr max (map length xss) 0]"

text \<open>
  Modelled from the spec: \<^verbatim>\<open>get_merged_lazy_value\<close> of \<^verbatim>\<open>jedi.inference.lazy_value\<close> is not among
  the sources. One lazy value stands for itself, several are merged; it indexes the first
  element, so the empty list raises.
\<close>

definition get_merged_lazy_value :: "lazy_value list \<Rightarrow> py_error + lazy_value" where
  "get_merged_lazy_value lazy_values =
     (if length lazy_values > 1 then Inr (MergedLazyValues lazy_values)
      else case lazy_values of [] \<Rightarrow> Inl IndexError | l # _ \<Rightarrow> Inr l)"

section \<open>\<^verbatim>\<open>TreeArguments.unpack\<close>\<close>

type_synonym entry = "string option \<times> lazy_value"

text \<open>The loop over the rows of \<^verbatim>\<open>zip_longest\<close> in the single-star branch.\<close>

fun merge_rows :: "lazy_value option list list \<Rightarrow> entry generator" where
  "merge_rows [] = ([], None)"
| "merge_rows (vals # rows) =
     (case get_merged_lazy_value (map the (filter (\<lambda>v. v \<noteq> None) vals)) of
        Inl e \<Rightarrow> raise_now e
      | Inr l \<Rightarrow> yield_then (None, l) (merge_rows rows))"

text \<open>
  One pass of the loop body of \<^verbatim>\<open>unpack\<close>, for one \<^verbatim>\<open>(star_count, el)\<close>: the issues reported,
  the entries yielded, the pairs appended to \<^verbatim>\<open>named_args\<close>, and the exception raised, if any.
\<close>

type_synonym pass = "issue list \<times> entry list \<times> (string \<times> lazy_value) list \<times> py_error option"

definition unpack_plain :: "ctx \<Rightarrow> node \<Rightarrow> pass" where
  "unpack_plain context el =
     (if node_type el = ''argument'' then
        (case children el of
           Inl e \<Rightarrow> ([], [], [], Some e)
         | Inr c \<Rightarrow>
             if length c = 3 then
               (case leaf_value (c ! 0) of
                  Inl e \<Rightarrow> ([], [], [], Some e)
                | Inr name \<Rightarrow> ([], [], [(name, LazyTreeValue context (c ! 2))], None))
             else if length c < 2 then ([], [], [], Some IndexError)
             else if node_type (c ! 1) = ''comp_for'' then
               (case children (c ! 1) of
                  Inl e \<Rightarrow> ([], [], [], Some e)
                | Inr cc \<Rightarrow>
                    if length cc < 2 then ([], [], [], Some IndexError)
                    else ([], [(None, LazyKnownValue (GeneratorComprehension context (cc ! 1) (c ! 0)))],
                          [], None))
             else ([], [(None, LazyKnownValue (GeneratorComprehension context (c ! 1) (c ! 0)))],
                   [], None))
      else ([], [(None, LazyTreeValue context el)], [], None))"

definition unpack_el :: "engine \<Rightarrow> ctx \<Rightarrow> string option \<Rightarrow> nat \<times> node \<Rightarrow> pass" where
  "unpack_el E context funcdef item =
     (case item of (star_count, el) \<Rightarrow>
        if star_count = 1 then
          (let arrays = infer_node E context el;
               iterators = map (\<lambda>a. iterate_star_args E context a el funcdef) arrays;
               merged = merge_rows (zip_longest (map snd iterators))
           in (concat (map fst iterators), fst merged, [], snd merged))
        else if star_count = 2 then
          (let arrays = infer_node E context el;
               dicts = map (\<lambda>dct. star_star_dict E context dct el funcdef) arrays
           in (concat (map fst dicts),
               concat (map (\<lambda>d. map (\<lambda>(key, vals). (Some key, vals)) (snd d)) dicts),
               [], None))
        else unpack_plain context el)"

fun unpack_items :: "engine \<Rightarrow> ctx \<Rightarrow> string option \<Rightarrow> (nat \<times> node) list \<Rightarrow> pass" where
  "unpack_items E context funcdef [] = ([], [], [], None)"
| "unpack_items E context funcdef (item # items) =
     (case unpack_el E context funcdef item of
        (iss, ys, named, Some e) \<Rightarrow> (iss, ys, named, Some e)
      | (iss, ys, named, None) \<Rightarrow>
          (case unpack_items E context funcdef items of
             (iss', ys', named', err) \<Rightarrow> (iss @ iss', ys @ ys', named @ named', err)))"

text \<open>
  \<^verbatim>\<open>TreeArguments.unpack\<close>, run to its end: the issues reported, the entries yielded, and the
  exception that ended it, if any. The buffered keyword pairs are yielded only when the loop
  over \<^verbatim>\<open>unpack_arglist\<close> has ended without an exception.
\<close>

definition unpack ::
  "engine \<Rightarrow> node option \<Rightarrow> ctx \<Rightarrow> string option \<Rightarrow> issue list \<times> entry list \<times> py_error option"
where
  "unpack E argument_node context funcdef =
     (case unpack_arglist argument_node of
        (items, gen_err) \<Rightarrow>
          (case unpack_items E context funcdef items of
             (iss, ys, named, Some e) \<Rightarrow> (iss, ys, Some e)
           | (iss, ys, named, None) \<Rightarrow>
               (case gen_err of
                  Some e \<Rightarrow> (iss, ys, Some e)
                | None \<Rightarrow> (iss, ys @ map (\<lambda>(key, vals). (Some key, vals)) named, None))))"

section \<open>Notions used to state the properties of \<^verbatim>\<open>unpack\<close>\<close>

text \<open>
  A plain positional expression is a child that none of the branches of \<^verbatim>\<open>unpack_arglist\<close> and
  \<^verbatim>\<open>unpack\<close> treats specially: not a comma, not a star token, not an \<^verbatim>\<open>argument\<close> node.
\<close>

definition plain_positional :: "node \<Rightarrow> bool" where
  "plain_positional n = (\<not> eq_str n '','' \<and> \<not> is_star n \<and> node_type n \<noteq> ''argument'')"

text \<open>
  A keyword argument, as \<^verbatim>\<open>unpack\<close> recognises it: an item without stars whose node is an
  \<^verbatim>\<open>argument\<close> with three children.
\<close>

definition is_keyword_item :: "nat \<times> node \<Rightarrow> bool" where
  "is_keyword_item item =
     (fst item \<noteq> 1 \<and> fst item \<noteq> 2 \<and> node_type (snd item) = ''argument'' \<and>
      (case children (snd item) of Inl e \<Rightarrow> False | Inr c \<Rightarrow> length c = 3))"

text \<open>The pairs \<open>name=expr\<close> of a list of items, in source order.\<close>

fun keyword_pairs :: "ctx \<Rightarrow> (nat \<times> node) list \<Rightarrow> entry list" where
  "keyword_pairs context [] = []"
| "keyword_pairs context ((star_count, Node t [Leaf lt name p, eq, expr]) # items) =
     (if star_count \<noteq> 1 \<and> star_count \<noteq> 2 \<and> t = ''argument''
      then (Some name, LazyTreeValue context expr) # keyword_pairs context items
      else keyword_pairs context items)"
| "keyword_pairs context (item # items) = keyword_pairs context items"

text \<open>The call \<^verbatim>\<open>f(a, k=1, *xs, **d, m=2)\<close> and an engine for it.\<close>

definition name_leaf :: "string \<Rightarrow> nat \<Rightarrow> node" where
  "name_leaf s col = Leaf ''name'' s (1, col)"

definition op_leaf :: "string \<Rightarrow> nat \<Rightarrow> node" where
  "op_leaf s col = Leaf ''operator'' s (1, col)"

definition example_arglist :: node where
  "example_arglist = Node ''arglist''
     [name_leaf ''a'' 2, op_leaf '','' 3,
      Node ''argument'' [name_leaf ''k'' 5, op_leaf ''='' 6, Leaf ''number'' ''1'' (1, 7)], op_leaf '','' 8,
      Node ''argument'' [op_leaf ''*'' 10, name_leaf ''xs'' 11], op_leaf '','' 13,
      Node ''argument'' [op_leaf ''**'' 15, name_leaf ''d'' 17], op_leaf '','' 18,
      Node ''argument'' [name_leaf ''m'' 20, op_leaf ''='' 21, Leaf ''number'' ''2'' (1, 22)]]"

text \<open>
  \<^verbatim>\<open>xs\<close> infers to a three-element sequence (value 1) or to an integer (value 2, not iterable);
  \<^verbatim>\<open>d\<close> infers to a dictionary literal with the keys \<^verbatim>\<open>a\<close> and \<^verbatim>\<open>b\<close> (value 3), to the
  integer again, or to a compiled \<^verbatim>\<open>dict\<close> instance (value 10), depending on the context.
\<close>

definition example_engine :: engine where
  "example_engine = \<lparr>
     infer_node = (\<lambda>c n.
       if n = name_leaf ''xs'' 11 then (if c = 0 then [ValueRef 1] else [ValueRef 2])
       else if n = name_leaf ''d'' 17
         then (if c = 0 then [ValueRef 3] else if c = 1 then [ValueRef 2] else [ValueRef 10])
       else []),
     py_getattribute = (\<lambda>v s. if v = ValueRef 1 \<and> s = ''__iter__'' then [ValueRef 9] else []),
     py_iter = (\<lambda>v. if v = ValueRef 1
       then Some [LazyKnownValue (ValueRef 4), LazyKnownValue (ValueRef 5), LazyKnownValue (ValueRef 6)]
       else None),
     class_of = (\<lambda>v. if v = ValueRef 1 then Sequence ''list''
       else if v = ValueRef 3 then Sequence ''dict''
       else if v = ValueRef 10 then CompiledInstance ''dict'' else OtherValue),
     exact_key_items = (\<lambda>v. if v = ValueRef 3
       then [(''a'', LazyKnownValue (ValueRef 7)), (''b'', LazyKnownValue (ValueRef 8))] else []),
     lazy_infer = known_infer \<rparr>"

section \<open>Argument clinic: \<^verbatim>\<open>_parse_argument_clinic\<close>\<close>

text \<open>
  The regular expression of the parser is
  \<^verbatim>\<open>(?:(?:(\[),? ?|, ?|)(\**\w+)|, ?/)\]*\<close>, matched at the start of the string. \<^verbatim>\<open>\w\<close> is
  taken over ASCII: letters, digits and the underscore.
\<close>

definition is_word_char :: "char \<Rightarrow> bool" where
  "is_word_char c =
     (c \<in> set (''abcdefghijklmnopqrstuvwxyz'' @ ''ABCDEFGHIJKLMNOPQRSTUVWXYZ'' @ ''0123456789_''))"

text \<open>
  \<^verbatim>\<open>\**\w+\<close> at the start of \<open>s\<close>: the text matched and the rest. A star is no word character,
  so giving back stars never helps and the greedy match is the only one.
\<close>

definition word_with_stars :: "string \<Rightarrow> (string \<times> string) option" where
  "word_with_stars s =
     (let stars = takeWhile (\<lambda>c. c = CHR ''*'') s;
          s1 = dropWhile (\<lambda>c. c = CHR ''*'') s;
          word = takeWhile is_word_char s1
      in if word = [] then None else Some (stars @ word, dropWhile is_word_char s1))"

text \<open>An optional character, \<^verbatim>\<open>,?\<close> or \<^verbatim>\<open> ?\<close>.\<close>

definition skip_opt :: "char \<Rightarrow> string \<Rightarrow> string" where
  "skip_opt c s = (case s of [] \<Rightarrow> [] | x # xs \<Rightarrow> if x = c then xs else s)"

text \<open>
  The first alternative, \<^verbatim>\<open>(?:(\[),? ?|, ?|)(\**\w+)\<close>: \<^verbatim>\<open>group(1)\<close>, \<^verbatim>\<open>group(2)\<close> and the rest.
  Its three ways in start with a bracket, with a comma and with a star or word character,
  so at most one of them matches, and giving back an optional comma or space never helps.
\<close>

definition match_word :: "string \<Rightarrow> (string option \<times> string \<times> string) option" where
  "match_word s =
     (case s of
        [] \<Rightarrow> None
      | x # s1 \<Rightarrow>
          if x = CHR ''['' then
            map_option (Pair (Some ''[''))
              (word_with_stars (skip_opt CHR '' '' (skip_opt CHR '','' s1)))
          else if x = CHR '','' then
            map_option (Pair None) (word_with_stars (skip_opt CHR '' '' s1))
          else map_option (Pair None) (word_with_stars s))"

text \<open>The second alternative, \<^verbatim>\<open>, ?/\<close>: the rest after it.\<close>

definition match_slash :: "string \<Rightarrow> string option" where
  "match_slash s =
     (case s of
        [] \<Rightarrow> None
      | x # s1 \<Rightarrow>
          if x = CHR '','' then
            (case skip_opt CHR '' '' s1 of
               [] \<Rightarrow> None
             | y # rest \<Rightarrow> if y = CHR ''/'' then Some rest else None)
          else None)"

text \<open>
  \<^verbatim>\<open>re.match\<close> of the expression: \<open>None\<close> when there is no match, else \<^verbatim>\<open>group(1)\<close>,
  \<^verbatim>\<open>group(2)\<close> (each \<open>None\<close> when the group took no part) and the string after \<^verbatim>\<open>group(0)\<close>.
  The first alternative is tried first; the closing brackets are taken greedily.
\<close>

definition re_match :: "string \<Rightarrow> (string option \<times> string option \<times> string) option" where
  "re_match s =
     (case match_word s of
        Some (g1, word, rest) \<Rightarrow> Some (g1, Some word, dropWhile (\<lambda>c. c = CHR '']'') rest)
      | None \<Rightarrow>
          (case match_slash s of
             Some rest \<Rightarrow> Some (None, None, dropWhile (\<lambda>c. c = CHR '']'') rest)
           | None \<Rightarrow> None))"

lemma word_with_stars_shorter:
  "word_with_stars s = Some (w, rest) \<Longrightarrow> w \<noteq> [] \<and> length rest < length s"
proof -
  assume a: "word_with_stars s = Some (w, rest)"
  let ?s1 = "dropWhile (\<lambda>c. c = CHR ''*'') s"
  from a have w: "takeWhile is_word_char ?s1 \<noteq> []" and r: "rest = dropWhile is_word_char ?s1"
    and ww: "w = takeWhile (\<lambda>c. c = CHR ''*'') s @ takeWhile is_word_char ?s1"
    by (auto simp: word_with_stars_def Let_def split: if_splits)
  have "length (takeWhile is_word_char ?s1) + length rest = length ?s1"
    unfolding r by (metis length_append takeWhile_dropWhile_id)
  with w have "length rest < length ?s1" by (cases "takeWhile is_word_char ?s1") auto
  also have "length ?s1 \<le> length s" by (rule length_dropWhile_le)
  finally show ?thesis using w ww by simp
qed

lemma skip_opt_le: "length (skip_opt c s) \<le> length s"
  by (cases s) (auto simp: skip_opt_def)

lemma match_word_shorter:
  assumes "match_word s = Some (g1, w, rest)"
  shows "w \<noteq> [] \<and> length rest < length s"
proof (cases s)
  case Nil
  with assms show ?thesis by (simp add: match_word_def)
next
  case (Cons x s1)
  consider (bracket) "x = CHR ''[''" | (comma) "x \<noteq> CHR ''[''" "x = CHR '',''"
    | (other) "x \<noteq> CHR ''[''" "x \<noteq> CHR '',''"
    by blast
  then show ?thesis
  proof cases
    case bracket
    with assms Cons
    have "word_with_stars (skip_opt CHR '' '' (skip_opt CHR '','' s1)) = Some (w, rest)"
      by (auto simp: match_word_def)
    from word_with_stars_shorter[OF this] skip_opt_le[of "CHR '' ''" "skip_opt CHR '','' s1"]
      skip_opt_le[of "CHR '',''" s1] Cons
    show ?thesis by simp
  next
    case comma
    with assms Cons have "word_with_stars (skip_opt CHR '' '' s1) = Some (w, rest)"
      by (auto simp: match_word_def)
    from word_with_stars_shorter[OF this] skip_opt_le[of "CHR '' ''" s1] Cons
    show ?thesis by simp
  next
    case other
    with assms Cons have "word_with_stars s = Some (w, rest)"
      by (auto simp: match_word_def)
    from word_with_stars_shorter[OF this] show ?thesis by simp
  qed
qed

lemma match_slash_shorter:
  assumes "match_slash s = Some rest"
  shows "length rest < length s"
proof (cases s)
  case Nil
  with assms show ?thesis by (simp add: match_slash_def)
next
  case (Cons x s1)
  with assms obtain y where "skip_opt CHR '' '' s1 = y # rest"
    by (auto simp: match_slash_def split: if_splits list.splits)
  with skip_opt_le[of "CHR '' ''" s1] Cons show ?thesis by simp
qed

lemma re_match_shorter:
  assumes "re_match s = Some (g1, g2, rest)"
  shows "length rest < length s"
proof (cases "match_word s")
  case None
  with assms obtain r where "match_slash s = Some r" "rest = dropWhile (\<lambda>c. c = CHR '']'') r"
    by (auto simp: re_match_def split: option.splits)
  with match_slash_shorter[of s r] length_dropWhile_le[of "\<lambda>c. c = CHR '']''" r]
  show ?thesis by simp
next
  case (Some m)
  obtain a w r where m: "m = (a, w, r)" by (cases m)
  with assms Some have "rest = dropWhile (\<lambda>c. c = CHR '']'') r"
    by (simp add: re_match_def)
  with match_word_shorter[of s a w r] Some m length_dropWhile_le[of "\<lambda>c. c = CHR '']''" r]
  show ?thesis by simp
qed

lemma re_match_word_nonempty:
  assumes "re_match s = Some (g1, Some w, rest)"
  shows "w \<noteq> []"
proof (cases "match_word s")
  case None
  with assms show ?thesis by (auto simp: re_match_def split: option.splits)
next
  case (Some m)
  obtain a w' r where m: "m = (a, w', r)" by (cases m)
  with assms Some have "w' = w" by (simp add: re_match_def)
  with match_word_shorter[of s a w' r] Some m show ?thesis by simp
qed

text \<open>
  A parameter of the clinic: \<^verbatim>\<open>(name, optional, allow_kwargs, stars)\<close>. The generator is
  consumed by \<^verbatim>\<open>list\<close>, so an exception in it leaves no parameters. \<^verbatim>\<open>match.group\<close> on a
  failed match raises \<^verbatim>\<open>AttributeError\<close>.
\<close>

type_synonym clinic_param = "string \<times> bool \<times> bool \<times> nat"

function parse_loop :: "bool \<Rightarrow> bool \<Rightarrow> string \<Rightarrow> py_error + clinic_param list" where
  "parse_loop allow_kwargs optional s =
     (if s = [] then Inr []
      else
        (case re_match s of
           None \<Rightarrow> Inl AttributeError
         | Some (g1, g2, rest) \<Rightarrow>
             if g2 = None \<or> g2 = Some [] then parse_loop True optional rest
             else
               (let optional' = (optional \<or> g1 \<noteq> None);
                    word = the g2;
                    stars = count_list word CHR ''*''
                in case parse_loop (allow_kwargs \<or> stars \<noteq> 0) optional' rest of
                     Inl e \<Rightarrow> Inl e
                   | Inr ps \<Rightarrow> Inr ((drop stars word, optional', allow_kwargs, stars) # ps))))"
  by pat_completeness auto
termination
  by (relation "measure (\<lambda>(allow_kwargs, optional, s). length s)")
     (auto dest: re_match_shorter)

declare parse_loop.simps [simp del]

definition parse_argument_clinic :: "string \<Rightarrow> py_error + clinic_param list" where
  "parse_argument_clinic s = parse_loop False False s"

section \<open>Argument clinic: \<^verbatim>\<open>_iterate_argument_clinic\<close>\<close>

text \<open>
  The variants of \<^verbatim>\<open>Arguments\<close>. A wrapper forwards \<^verbatim>\<open>context\<close>, \<^verbatim>\<open>argument_node\<close> and
  \<^verbatim>\<open>trailer\<close> to what it wraps; the other variants without a call site have \<open>None\<close> there.
\<close>

datatype arguments =
    TreeArguments "node option" ctx "node option"
  | ValuesArguments "val list list"
  | AnonymousArguments
  | TreeArgumentsWrapper arguments

fun argument_node_of :: "arguments \<Rightarrow> node option" where
  "argument_node_of (TreeArguments n c t) = n"
| "argument_node_of (TreeArgumentsWrapper a) = argument_node_of a"
| "argument_node_of _ = None"

fun context_of :: "arguments \<Rightarrow> ctx option" where
  "context_of (TreeArguments n c t) = Some c"
| "context_of (TreeArgumentsWrapper a) = context_of a"
| "context_of _ = None"

fun trailer_of :: "arguments \<Rightarrow> node option" where
  "trailer_of (TreeArguments n c t) = t"
| "trailer_of (TreeArgumentsWrapper a) = trailer_of a"
| "trailer_of _ = None"

text \<open>
  \<^verbatim>\<open>arguments.unpack(funcdef)\<close>, by variant: the mixin's and the wrapper's \<^verbatim>\<open>unpack\<close> raise
  \<^verbatim>\<open>NotImplementedError\<close>.
\<close>

fun arguments_unpack ::
  "engine \<Rightarrow> arguments \<Rightarrow> string option \<Rightarrow> issue list \<times> entry list \<times> py_error option"
where
  "arguments_unpack E (TreeArguments n c t) funcdef = unpack E n c funcdef"
| "arguments_unpack E (ValuesArguments values_list) funcdef =
     ([], map (\<lambda>vals. (None, LazyKnownValues vals)) values_list, None)"
| "arguments_unpack E AnonymousArguments funcdef = ([], [], Some NotImplementedError)"
| "arguments_unpack E (TreeArgumentsWrapper a) funcdef = ([], [], Some NotImplementedError)"

definition yield_value :: "'a \<Rightarrow> py_error + 'a list \<Rightarrow> py_error + 'a list" where
  "yield_value x r = (case r of Inl e \<Rightarrow> Inl e | Inr xs \<Rightarrow> Inr (x # xs))"

text \<open>
  The loop over the parameters. The stream of \<^verbatim>\<open>arguments.unpack()\<close> is what is left of its
  entries and the exception that ends it; the exception is raised when the entries are used
  up. The result is what \<^verbatim>\<open>tuple\<close> makes of the generator: the value sets, or the exception.
\<close>

fun iterate_params ::
  "engine \<Rightarrow> entry list \<Rightarrow> py_error option \<Rightarrow> clinic_param list \<Rightarrow> py_error + val list list"
where
  "iterate_params E entries err [] = Inr []"
| "iterate_params E entries err ((name, optional, allow_kwargs, stars) # parameters) =
     (if stars = 1 then
        (let lazy_values = map snd (takeWhile (\<lambda>e. fst e = None) entries);
             rest = dropWhile (\<lambda>e. fst e = None) entries
         in if rest = [] \<and> err \<noteq> None then Inl (the err)
            else yield_value [FakeSequence ''tuple'' lazy_values]
                   (iterate_params E rest (if rest = [] then None else err) parameters))
      else if stars = 2 then Inl NotImplementedError
      else
        (case entries of
           [] \<Rightarrow>
             (case err of
                Some e \<Rightarrow> Inl e
              | None \<Rightarrow>
                  if \<not> optional then Inl ParamIssue
                  else yield_value NO_VALUES (iterate_params E [] None parameters))
         | (key, argument) # rest \<Rightarrow>
             if key \<noteq> None then Inl ParamIssue
             else
               (let value_set = lazy_infer E argument
                in if value_set = [] \<and> \<not> optional then Inl ParamIssue
                   else yield_value value_set (iterate_params E rest err parameters))))"

definition iterate_argument_clinic ::
  "engine \<Rightarrow> arguments \<Rightarrow> clinic_param list \<Rightarrow> py_error + val list list"
where
  "iterate_argument_clinic E arguments parameters =
     (case arguments_unpack E arguments None of
        (iss, entries, err) \<Rightarrow> iterate_params E entries err parameters)"

section \<open>\<^verbatim>\<open>repack_with_argument_clinic\<close>\<close>

text \<open>
  The objects passed to the wrapped function: the positional ones and the keyword ones, of
  which \<^verbatim>\<open>arguments\<close> must be there. The wrapped function is a parameter; it returns a value
  set or raises.
\<close>

datatype pyobj =
    ArgumentsObj arguments
  | ValueSetObj "val list"
  | OtherObj nat

type_synonym kwargs = "string \<Rightarrow> pyobj option"

type_synonym func = "ctx \<Rightarrow> pyobj list \<Rightarrow> kwargs \<Rightarrow> py_error + val list"

definition wrapper ::
  "engine \<Rightarrow> clinic_param list \<Rightarrow> bool \<Rightarrow> func \<Rightarrow> ctx \<Rightarrow> pyobj list \<Rightarrow> kwargs \<Rightarrow> py_error + val list"
where
  "wrapper E clinic_args keep_arguments_param func context args kwargs =
     (case kwargs ''arguments'' of
        None \<Rightarrow> Inl KeyError
      | Some arguments \<Rightarrow>
          (let kwargs1 = (if keep_arguments_param then kwargs else kwargs(''arguments'' := None));
               kwargs2 = (if \<not> keep_arguments_param then kwargs1(''callback'' := None) else kwargs1)
           in case arguments of
                ArgumentsObj a \<Rightarrow>
                  (case iterate_argument_clinic E a clinic_args of
                     Inl e \<Rightarrow> if e = ParamIssue then Inr NO_VALUES else Inl e
                   | Inr value_sets \<Rightarrow> func context (args @ map ValueSetObj value_sets) kwargs2)
              | _ \<Rightarrow> Inl AttributeError))"

definition repack_with_argument_clinic ::
  "engine \<Rightarrow> string \<Rightarrow> bool \<Rightarrow> func \<Rightarrow> py_error + func"
where
  "repack_with_argument_clinic E string keep_arguments_param func =
     (case parse_argument_clinic string of
        Inl e \<Rightarrow> Inl e
      | Inr clinic_args \<Rightarrow> Inr (wrapper E clinic_args keep_arguments_param func))"

text \<open>The flags of a clinic parameter.\<close>

definition param_optional :: "clinic_param \<Rightarrow> bool" where
  "param_optional p = fst (snd p)"

definition param_allow_kwargs :: "clinic_param \<Rightarrow> bool" where
  "param_allow_kwargs p = fst (snd (snd p))"

section \<open>\<^verbatim>\<open>TreeArguments.get_calling_nodes\<close>\<close>

text \<open>
  \<^verbatim>\<open>_as_tree_tuple_objects\<close>: for every item of \<^verbatim>\<open>unpack_arglist\<close> the triple
  \<^verbatim>\<open>(argument, default, star_count)\<close>; a keyword argument is split by \<^verbatim>\<open>children[::2]\<close>.
\<close>

fun tuple_items ::
  "(nat \<times> node) list \<Rightarrow> py_error option \<Rightarrow> (node \<times> node option \<times> nat) generator"
where
  "tuple_items [] err = ([], err)"
| "tuple_items ((star_count, argument) # items) err =
     (if node_type argument = ''argument'' then
        (case children argument of
           Inl e \<Rightarrow> raise_now e
         | Inr c \<Rightarrow>
             if length c = 3
             then yield_then (c ! 0, Some (c ! 2), star_count) (tuple_items items err)
             else yield_then (argument, None, star_count) (tuple_items items err))
      else yield_then (argument, None, star_count) (tuple_items items err))"

definition as_tree_tuple_objects ::
  "node option \<Rightarrow> (node \<times> node option \<times> nat) generator"
where
  "as_tree_tuple_objects argument_node =
     tuple_items (fst (unpack_arglist argument_node)) (snd (unpack_arglist argument_node))"

text \<open>\<^verbatim>\<open>isinstance(name, tree.Name)\<close>\<close>

fun is_name :: "node \<Rightarrow> bool" where
  "is_name (Leaf t v p) = (t = ''name'')"
| "is_name (Node t cs) = False"

text \<open>
  \<^verbatim>\<open>iter_calling_names_with_star\<close>: the name nodes of the starred arguments; the
  \<^verbatim>\<open>TreeNameDefinition\<close> made of each is the node together with the context of the arguments.
\<close>

definition iter_calling_names_with_star :: "node option \<Rightarrow> node generator" where
  "iter_calling_names_with_star argument_node =
     (map fst
        (filter (\<lambda>t. snd (snd t) \<noteq> 0 \<and> is_name (fst t))
           (fst (as_tree_tuple_objects argument_node))),
      snd (as_tree_tuple_objects argument_node))"

text \<open>
  What \<^verbatim>\<open>goto\<close> finds for a calling name: a \<^verbatim>\<open>ParamName\<close>, whose \<^verbatim>\<open>get_param()\<close> is either a
  \<^verbatim>\<open>DynamicExecutedParams\<close> or a parameter with its \<^verbatim>\<open>var_args\<close> (an \<^verbatim>\<open>Arguments\<close> object, or
  \<^verbatim>\<open>None\<close>), or some other name. \<^verbatim>\<open>Arguments\<close> objects are compared by identity: they are handles
  into a heap.
\<close>

datatype param_obj =
    DynamicExecutedParams
  | ExecutedParam "nat option"

datatype name_def =
    ParamName param_obj
  | OtherName

text \<open>
  One pass of the \<^verbatim>\<open>while\<close> loop for the object at a handle: it is no \<^verbatim>\<open>TreeArguments\<close> (the
  first \<^verbatim>\<open>break\<close>), an exception escapes, the function returns the empty list, the \<^verbatim>\<open>for\<close> loop
  ends or breaks with \<^verbatim>\<open>arguments\<close> unchanged, or \<^verbatim>\<open>arguments\<close> becomes \<^verbatim>\<open>param.var_args\<close>. The
  \<^verbatim>\<open>for\<close> loop leaves in its first pass, so only the last starred name counts.
\<close>

datatype pass_result =
    NotTree
  | Raises py_error
  | ReturnEmpty
  | Unchanged
  | Advance nat

definition calling_pass ::
  "(ctx \<Rightarrow> node \<Rightarrow> name_def list) \<Rightarrow> (nat \<Rightarrow> arguments) \<Rightarrow> nat \<Rightarrow> pass_result"
where
  "calling_pass goto heap h =
     (case heap h of
        TreeArguments n c t \<Rightarrow>
          (case iter_calling_names_with_star n of
             (names, Some e) \<Rightarrow> Raises e
           | (names, None) \<Rightarrow>
               (case rev names of
                  [] \<Rightarrow> Unchanged
                | calling_name # _ \<Rightarrow>
                    (case goto c calling_name of
                       [ParamName DynamicExecutedParams] \<Rightarrow> ReturnEmpty
                     | [ParamName (ExecutedParam None)] \<Rightarrow> Unchanged
                     | [ParamName (ExecutedParam (Some var_args))] \<Rightarrow> Advance var_args
                     | _ \<Rightarrow> Unchanged)))
      | _ \<Rightarrow> NotTree)"

text \<open>
  The \<^verbatim>\<open>while\<close> loop, with \<^verbatim>\<open>old_arguments_list\<close> and \<^verbatim>\<open>arguments\<close> as its state. It may run for
  ever on a heap with infinitely many objects, so it is a partial function: \<open>None\<close> is not
  returning. It ends with an exception, with the early \<^verbatim>\<open>return []\<close> (\<open>Inr None\<close>), or with the
  \<^verbatim>\<open>arguments\<close> the loop stopped at.
\<close>

partial_function (option) calling_loop ::
  "(ctx \<Rightarrow> node \<Rightarrow> name_def list) \<Rightarrow> (nat \<Rightarrow> arguments) \<Rightarrow> nat list \<Rightarrow> nat \<Rightarrow>
   (py_error + nat option) option"
where
  "calling_loop goto heap old_arguments_list arguments =
     (if arguments \<in> set old_arguments_list then Some (Inr (Some arguments))
      else
        (case calling_pass goto heap arguments of
           NotTree \<Rightarrow> Some (Inr (Some arguments))
         | Raises e \<Rightarrow> Some (Inl e)
         | ReturnEmpty \<Rightarrow> Some (Inr None)
         | Unchanged \<Rightarrow> calling_loop goto heap (old_arguments_list @ [arguments]) arguments
         | Advance var_args \<Rightarrow>
             calling_loop goto heap (old_arguments_list @ [arguments]) var_args))"

declare calling_loop.simps [code]

text \<open>The end of the function: the \<^verbatim>\<open>ContextualizedNode\<close> of the argument node, or of the trailer.\<close>

definition provenance :: "arguments \<Rightarrow> (ctx option \<times> node) list" where
  "provenance a =
     (case argument_node_of a of
        Some n \<Rightarrow> [(context_of a, n)]
      | None \<Rightarrow>
          (case trailer_of a of
             Some t \<Rightarrow> [(context_of a, t)]
           | None \<Rightarrow> []))"

definition get_calling_nodes ::
  "(ctx \<Rightarrow> node \<Rightarrow> name_def list) \<Rightarrow> (nat \<Rightarrow> arguments) \<Rightarrow> nat \<Rightarrow>
   (py_error + (ctx option \<times> node) list) option"
where
  "get_calling_nodes goto heap self =
     (case calling_loop goto heap [] self of
        None \<Rightarrow> None
      | Some (Inl e) \<Rightarrow> Some (Inl e)
      | Some (Inr None) \<Rightarrow> Some (Inr [])
      | Some (Inr (Some arguments)) \<Rightarrow> Some (Inr (provenance (heap arguments))))"

text \<open>The handle the loop moves to from a handle, if it moves.\<close>

definition var_args_of ::
  "(ctx \<Rightarrow> node \<Rightarrow> name_def list) \<Rightarrow> (nat \<Rightarrow> arguments) \<Rightarrow> nat \<Rightarrow> nat option"
where
  "var_args_of goto heap h =
     (case calling_pass goto heap h of Advance var_args \<Rightarrow> Some var_args | _ \<Rightarrow> None)"

text \<open>
  A chain of forwarding: object 0 is the call \<^verbatim>\<open>f(1, 2)\<close>; the objects 1, 2 and 3 are calls
  \<^verbatim>\<open>g(*args)\<close> in the contexts 1, 2 and 3, where \<^verbatim>\<open>args\<close> is the parameter that received the
  arguments of the object before. And a cycle: two calls \<^verbatim>\<open>g(*args)\<close> whose \<^verbatim>\<open>args\<close> received
  the arguments of each other.
\<close>

definition forwarding_node :: node where
  "forwarding_node = Node ''argument'' [op_leaf ''*'' 3, name_leaf ''args'' 4]"

definition original_node :: node where
  "original_node =
     Node ''arglist'' [Leaf ''number'' ''1'' (1, 2), op_leaf '','' 3, Leaf ''number'' ''2'' (1, 5)]"

definition chain_heap :: "nat \<Rightarrow> arguments" where
  "chain_heap h =
     (if h = 0 then TreeArguments (Some original_node) 0 None
      else if h \<le> 3 then TreeArguments (Some forwarding_node) h None
      else AnonymousArguments)"

definition chain_goto :: "ctx \<Rightarrow> node \<Rightarrow> name_def list" where
  "chain_goto c n =
     (if n = name_leaf ''args'' 4 \<and> 1 \<le> c \<and> c \<le> 3
      then [ParamName (ExecutedParam (Some (c - 1)))] else [])"

definition cycle_heap :: "nat \<Rightarrow> arguments" where
  "cycle_heap h =
     (if h \<le> 1 then TreeArguments (Some forwarding_node) h None else AnonymousArguments)"

definition cycle_goto :: "ctx \<Rightarrow> node \<Rightarrow> name_def list" where
  "cycle_goto c n =
     (if n = name_leaf ''args'' 4 \<and> c \<le> 1
      then [ParamName (ExecutedParam (Some (1 - c)))] else [])"

section \<open>Properties of \<^verbatim>\<open>try_iter_content\<close>\<close>

lemma try_iter_content_depths:
  "e \<in> set (try_iter_content p i ts d) \<Longrightarrow> d \<le> fst e \<and> fst e \<le> 10"
proof (induction p i ts d arbitrary: e rule: try_iter_content.induct)
  case (1 p i ts d)
  show ?case
  proof (cases "d > 10")
    case True
    then have "try_iter_content p i ts d = []"
      by (subst try_iter_content.simps) simp
    with "1.prems" show ?thesis by simp
  next
    case False
    have unf: "try_iter_content p i ts d =
        concat (map (\<lambda>t. case p t of None \<Rightarrow> []
           | Some lazies \<Rightarrow> (d, t) #
               concat (map (\<lambda>l. try_iter_content p i (i l) (d + 1)) lazies)) ts)"
      using False by (subst try_iter_content.simps) simp
    from "1.prems" obtain t lazies where tin: "t \<in> set ts" "p t = Some lazies"
      and e: "e = (d, t) \<or> (\<exists>l \<in> set lazies. e \<in> set (try_iter_content p i (i l) (d + 1)))"
      unfolding unf by (auto split: option.splits) metis+
    from e show ?thesis
    proof
      assume "e = (d, t)"
      with False show ?thesis by simp
    next
      assume "\<exists>l \<in> set lazies. e \<in> set (try_iter_content p i (i l) (d + 1))"
      then obtain l where "l \<in> set lazies" "e \<in> set (try_iter_content p i (i l) (d + 1))"
        by blast
      with "1.IH"[OF False tin] show ?thesis by fastforce
    qed
  qed
qed

lemma try_iter_content_self:
  assumes "p v = Some [l]" "i l = [v]"
  shows "d \<le> 10 \<Longrightarrow> try_iter_content p i [v] d = map (\<lambda>k. (k, v)) [d..<11]"
proof (induction "10 - d" arbitrary: d)
  case 0
  then have "d = 10" by simp
  have "try_iter_content p i [v] 11 = []"
    by (subst try_iter_content.simps) simp
  then have "try_iter_content p i [v] 10 = [(10, v)]"
    using assms by (subst try_iter_content.simps) simp
  then show ?case using \<open>d = 10\<close> by (simp add: upt_rec)
next
  case (Suc n)
  then have le: "Suc d \<le> 10" and n: "n = 10 - Suc d" by simp_all
  have ih: "try_iter_content p i [v] (Suc d) = map (\<lambda>k. (k, v)) [Suc d..<11]"
    using Suc(1)[OF n le] .
  have up: "[d..<11] = d # [Suc d..<11]"
    using le by (simp add: upt_conv_Cons)
  have "try_iter_content p i [v] d = (d, v) # try_iter_content p i [v] (Suc d)"
    using le assms by (subst try_iter_content.simps) simp
  then show ?case by (simp only: ih up list.map)
qed

text \<open>
  Claim C7. \<^verbatim>\<open>try_iter_content\<close> is a total function (its termination is proved with the
  measure \<open>11 - depth\<close>), for every engine, including one with a value that iterates into
  itself. Every \<^verbatim>\<open>py__iter__()\<close> call is made by an invocation whose depth is at most 10; an
  invocation whose depth is above 10 returns at once, having done nothing and raised nothing;
  on a value whose single element infers to the value itself the descent makes exactly the
  eleven calls of depth 0 to 10 and stops.
\<close>

theorem try_iter_content_ceiling:
  "(\<forall>e \<in> set (try_iter_content iter_of infer_of types depth). fst e \<le> 10)
   \<and> (depth > 10 \<longrightarrow> try_iter_content iter_of infer_of types depth = [])
   \<and> (iter_of v = Some [l] \<and> infer_of l = [v] \<longrightarrow>
        try_iter_content iter_of infer_of [v] 0 = map (\<lambda>k. (k, v)) [0..<11])"
proof (intro conjI impI)
  show "\<forall>e \<in> set (try_iter_content iter_of infer_of types depth). fst e \<le> 10"
    using try_iter_content_depths[of _ iter_of infer_of types depth] by blast
  show "try_iter_content iter_of infer_of types depth = []" if "depth > 10"
    using that by (subst try_iter_content.simps) simp
  show "try_iter_content iter_of infer_of [v] 0 = map (\<lambda>k. (k, v)) [0..<11]"
    if "iter_of v = Some [l] \<and> infer_of l = [v]"
    using that try_iter_content_self[of iter_of v l infer_of 0] by simp
qed

theorem try_iter_content_ceiling_witness:
  "self_referential_iter (ValueRef 0) = Some [LazyKnownValue (ValueRef 0)]
   \<and> known_infer (LazyKnownValue (ValueRef 0)) = [ValueRef 0]
   \<and> try_iter_content self_referential_iter known_infer [ValueRef 0] 0 =
       map (\<lambda>k. (k, ValueRef 0)) [0..<11]
   \<and> list_all (\<lambda>e. fst e \<le> 10)
       (try_iter_content self_referential_iter known_infer [ValueRef 0] 0)
   \<and> (10::nat) < 11
   \<and> try_iter_content self_referential_iter known_infer [ValueRef 0] 11 = []"
proof -
  have a: "self_referential_iter (ValueRef 0) = Some [LazyKnownValue (ValueRef 0)]"
    by (simp add: self_referential_iter_def)
  have b: "known_infer (LazyKnownValue (ValueRef 0)) = [ValueRef 0]" by simp
  note t0 = try_iter_content_ceiling[of self_referential_iter known_infer "[ValueRef 0]" 0
      "ValueRef 0" "LazyKnownValue (ValueRef 0)"]
  note t11 = try_iter_content_ceiling[of self_referential_iter known_infer "[ValueRef 0]" 11
      "ValueRef 0" "LazyKnownValue (ValueRef 0)"]
  have c: "try_iter_content self_referential_iter known_infer [ValueRef 0] 0 =
      map (\<lambda>k. (k, ValueRef 0)) [0..<11]"
    using t0 a b by blast
  have d: "try_iter_content self_referential_iter known_infer [ValueRef 0] 11 = []"
    using t11 by simp
  have e: "list_all (\<lambda>e. fst e \<le> 10)
      (try_iter_content self_referential_iter known_infer [ValueRef 0] 0)"
    using t0 by (simp only: list_all_iff) blast
  from a b c d e show ?thesis by simp
qed

section \<open>Properties of \<^verbatim>\<open>TreeArguments.unpack\<close>\<close>

lemma unpack_children_plain:
  "\<forall>c \<in> set cs. eq_str c '','' \<or> plain_positional c \<Longrightarrow>
   unpack_children cs = (map (Pair 0) (filter (\<lambda>c. \<not> eq_str c '','') cs), None)"
  by (induction cs) (auto simp: plain_positional_def yield_then_def)

lemma unpack_items_plain:
  "\<forall>e \<in> set es. node_type e \<noteq> ''argument'' \<Longrightarrow>
   unpack_items E c f (map (Pair 0) es) = ([], map (\<lambda>e. (None, LazyTreeValue c e)) es, [], None)"
  by (induction es) (auto simp: unpack_el_def unpack_plain_def)

lemma unpack_el_keyword:
  assumes "is_keyword_item item" and "unpack_el E c f item = (iss, ys, named, None)"
  shows "iss = [] \<and> ys = [] \<and> map (\<lambda>(key, vals). (Some key, vals)) named = keyword_pairs c [item]"
proof -
  obtain sc el where item: "item = (sc, el)" by (cases item)
  from assms(1) item obtain t cs where el: "el = Node t cs" "t = ''argument''" "length cs = 3"
    and sc: "sc \<noteq> 1" "sc \<noteq> 2"
    by (cases el) (auto simp: is_keyword_item_def)
  from el(3) obtain c0 c1 c2 where cs: "cs = [c0, c1, c2]"
    by (auto simp: numeral_3_eq_3 length_Suc_conv)
  show ?thesis
    using assms(2) item el sc cs
    by (cases c0) (auto simp: unpack_el_def unpack_plain_def)
qed

lemma unpack_el_not_keyword:
  assumes "\<not> is_keyword_item item" and "unpack_el E c f item = (iss, ys, named, err)"
  shows "named = [] \<and> keyword_pairs c (item # items) = keyword_pairs c items"
proof -
  obtain sc el where item: "item = (sc, el)" by (cases item)
  have n: "named = []"
    using assms item
    by (auto simp: unpack_el_def unpack_plain_def is_keyword_item_def Let_def
        split: if_splits sum.splits)
  have k: "keyword_pairs c (item # items) = keyword_pairs c items"
    using assms(1) item
    by (cases "(c, item # items)" rule: keyword_pairs.cases)
       (auto simp: is_keyword_item_def)
  from n k show ?thesis by simp
qed

lemma keyword_pairs_Cons: "keyword_pairs c (item # items) = keyword_pairs c [item] @ keyword_pairs c items"
  by (cases "(c, item # items)" rule: keyword_pairs.cases) auto

lemma unpack_items_keywords_last:
  "unpack_items E c f items = (iss, ys, named, None) \<Longrightarrow>
   unpack_items E c f (filter (\<lambda>i. \<not> is_keyword_item i) items) = (iss, ys, [], None)
   \<and> map (\<lambda>(key, vals). (Some key, vals)) named = keyword_pairs c items"
proof (induction items arbitrary: iss ys named)
  case Nil
  then show ?case by simp
next
  case (Cons item items)
  obtain i1 y1 n1 e1 where el: "unpack_el E c f item = (i1, y1, n1, e1)"
    by (metis prod_cases4)
  from Cons.prems el have e1: "e1 = None" by (auto split: option.splits prod.splits)
  obtain i2 y2 n2 e2 where rest: "unpack_items E c f items = (i2, y2, n2, e2)"
    by (metis prod_cases4)
  from Cons.prems el e1 rest have eqs: "iss = i1 @ i2" "ys = y1 @ y2" "named = n1 @ n2" "e2 = None"
    by auto
  note ih = Cons.IH[OF rest[unfolded eqs(4)]]
  show ?case
  proof (cases "is_keyword_item item")
    case True
    from unpack_el_keyword[OF True el[unfolded e1]]
    have k: "i1 = []" "y1 = []" "map (\<lambda>(key, vals). (Some key, vals)) n1 = keyword_pairs c [item]"
      by simp_all
    show ?thesis
      using True ih k eqs keyword_pairs_Cons[of c item items] by simp
  next
    case False
    from unpack_el_not_keyword[OF False el, of items]
    have k: "n1 = []" "keyword_pairs c (item # items) = keyword_pairs c items" by simp_all
    show ?thesis
      using False ih k eqs el e1 by simp
  qed
qed

lemma zip_longest_all_empty: "\<forall>xs \<in> set xss. xs = [] \<Longrightarrow> zip_longest xss = []"
proof -
  assume "\<forall>xs \<in> set xss. xs = []"
  then have "foldr max (map length xss) 0 = 0" by (induction xss) auto
  then show ?thesis by (simp add: zip_longest_def)
qed

lemma unpack_el_no_funcdef: "fst (unpack_el E c None item) = []"
  by (cases item)
     (auto simp: unpack_el_def unpack_plain_def iterate_star_args_def star_star_dict_def Let_def
        split: sum.splits)

lemma unpack_items_no_funcdef: "fst (unpack_items E c None items) = []"
proof (induction items)
  case Nil
  then show ?case by simp
next
  case (Cons item items)
  then show ?case
    using unpack_el_no_funcdef[of E c item]
    by (auto split: prod.splits option.splits)
qed

text \<open>
  Claim C1. Whenever \<^verbatim>\<open>unpack\<close> runs to its end without an exception, what it yields is what it
  yields for the argument list with the keyword arguments taken out (the positional,
  star-expanded, double-star-expanded and comprehension contributions, with the same issues),
  followed by the pairs \<open>name=expr\<close> of the keyword arguments in their source order, wherever
  they stood in the list.
\<close>

theorem unpack_keywords_last:
  "unpack E argument_node context funcdef = (iss, out, None) \<Longrightarrow>
   (\<exists>ys. unpack_items E context funcdef
            (filter (\<lambda>i. \<not> is_keyword_item i) (fst (unpack_arglist argument_node))) =
          (iss, ys, [], None)
        \<and> out = ys @ keyword_pairs context (fst (unpack_arglist argument_node)))"
proof -
  assume u: "unpack E argument_node context funcdef = (iss, out, None)"
  obtain items gen_err where g: "unpack_arglist argument_node = (items, gen_err)"
    by (cases "unpack_arglist argument_node")
  obtain i1 y1 n1 e1 where it: "unpack_items E context funcdef items = (i1, y1, n1, e1)"
    by (metis prod_cases4)
  from u g it have e1: "e1 = None" and ge: "gen_err = None"
    by (auto simp: unpack_def split: option.splits)
  from u g it e1 ge have eqs: "iss = i1" "out = y1 @ map (\<lambda>(key, vals). (Some key, vals)) n1"
    by (auto simp: unpack_def)
  from unpack_items_keywords_last[OF it[unfolded e1]] eqs g show ?thesis by simp
qed

theorem unpack_keywords_last_witness:
  "unpack example_engine (Some example_arglist) 0 (Some ''f'') =
     ([],
      [(None, LazyTreeValue 0 (name_leaf ''a'' 2)),
       (None, LazyKnownValue (ValueRef 4)),
       (None, LazyKnownValue (ValueRef 5)),
       (None, LazyKnownValue (ValueRef 6)),
       (Some ''a'', LazyKnownValue (ValueRef 7)),
       (Some ''b'', LazyKnownValue (ValueRef 8)),
       (Some ''k'', LazyTreeValue 0 (Leaf ''number'' ''1'' (1, 7))),
       (Some ''m'', LazyTreeValue 0 (Leaf ''number'' ''2'' (1, 22)))],
      None)
   \<and> keyword_pairs 0 (fst (unpack_arglist (Some example_arglist))) =
      [(Some ''k'', LazyTreeValue 0 (Leaf ''number'' ''1'' (1, 7))),
       (Some ''m'', LazyTreeValue 0 (Leaf ''number'' ''2'' (1, 22)))]
   \<and> (\<exists>ys. [(None, LazyTreeValue 0 (name_leaf ''a'' 2)),
       (None, LazyKnownValue (ValueRef 4)),
       (None, LazyKnownValue (ValueRef 5)),
       (None, LazyKnownValue (ValueRef 6)),
       (Some ''a'', LazyKnownValue (ValueRef 7)),
       (Some ''b'', LazyKnownValue (ValueRef 8)),
       (Some ''k'', LazyTreeValue 0 (Leaf ''number'' ''1'' (1, 7))),
       (Some ''m'', LazyTreeValue 0 (Leaf ''number'' ''2'' (1, 22)))] =
      ys @ keyword_pairs 0 (fst (unpack_arglist (Some example_arglist))))"
proof -
  have u: "unpack example_engine (Some example_arglist) 0 (Some ''f'') =
     ([],
      [(None, LazyTreeValue 0 (name_leaf ''a'' 2)),
       (None, LazyKnownValue (ValueRef 4)),
       (None, LazyKnownValue (ValueRef 5)),
       (None, LazyKnownValue (ValueRef 6)),
       (Some ''a'', LazyKnownValue (ValueRef 7)),
       (Some ''b'', LazyKnownValue (ValueRef 8)),
       (Some ''k'', LazyTreeValue 0 (Leaf ''number'' ''1'' (1, 7))),
       (Some ''m'', LazyTreeValue 0 (Leaf ''number'' ''2'' (1, 22)))],
      None)"
    by code_simp
  have k: "keyword_pairs 0 (fst (unpack_arglist (Some example_arglist))) =
      [(Some ''k'', LazyTreeValue 0 (Leaf ''number'' ''1'' (1, 7))),
       (Some ''m'', LazyTreeValue 0 (Leaf ''number'' ''2'' (1, 22)))]"
    by code_simp
  from unpack_keywords_last[OF u] u k show ?thesis by blast
qed

text \<open>
  Where the property of claim C9 does hold: an argument list whose children are only commas
  and nodes that are no \<^verbatim>\<open>argument\<close> nodes yields one \<open>(None, LazyTreeValue context e)\<close> per
  expression \<open>e\<close>, in source order, reports no issue and raises nothing; so does a call with
  a single such expression, and a call without arguments yields nothing.
\<close>

lemma unpack_only_positional:
  "((t = ''arglist'' \<or> t = ''testlist'') \<and> (\<forall>c \<in> set cs. eq_str c '','' \<or> plain_positional c) \<longrightarrow>
      unpack E (Some (Node t cs)) context funcdef =
        ([], map (\<lambda>e. (None, LazyTreeValue context e)) (filter (\<lambda>c. \<not> eq_str c '','') cs), None))
   \<and> (node_type a \<noteq> ''arglist'' \<and> node_type a \<noteq> ''testlist'' \<and> node_type a \<noteq> ''argument'' \<longrightarrow>
      unpack E (Some a) context funcdef = ([], [(None, LazyTreeValue context a)], None))
   \<and> unpack E None context funcdef = ([], [], None)"
proof (intro conjI impI)
  assume a: "(t = ''arglist'' \<or> t = ''testlist'') \<and> (\<forall>c \<in> set cs. eq_str c '','' \<or> plain_positional c)"
  let ?es = "filter (\<lambda>c. \<not> eq_str c '','') cs"
  have items: "unpack_arglist (Some (Node t cs)) = (map (Pair 0) ?es, None)"
    using a unpack_children_plain[of cs] by (auto simp: unpack_arglist_def)
  have "\<forall>e \<in> set ?es. node_type e \<noteq> ''argument''"
    using a by (auto simp: plain_positional_def)
  from unpack_items_plain[OF this] items
  show "unpack E (Some (Node t cs)) context funcdef =
      ([], map (\<lambda>e. (None, LazyTreeValue context e)) ?es, None)"
    by (simp add: unpack_def)
next
  assume "node_type a \<noteq> ''arglist'' \<and> node_type a \<noteq> ''testlist'' \<and> node_type a \<noteq> ''argument''"
  then show "unpack E (Some a) context funcdef = ([], [(None, LazyTreeValue context a)], None)"
    by (simp add: unpack_def unpack_arglist_def unpack_el_def unpack_plain_def)
next
  show "unpack E None context funcdef = ([], [], None)"
    by (simp add: unpack_def unpack_arglist_def)
qed

text \<open>
  Claim C9. The claim fails on the code. \<^verbatim>\<open>unpack\<close> takes every \<^verbatim>\<open>argument\<close> node with three
  children for a keyword argument (the branch commented \<^verbatim>\<open># Keyword argument.\<close>) and never
  looks at the middle child. The assignment expression \<^verbatim>\<open>x := 1\<close> is such a node and a plain
  positional expression: in \<^verbatim>\<open>f(x := 1, b)\<close> it is buffered under the name \<^verbatim>\<open>x\<close> and yielded
  after \<^verbatim>\<open>b\<close>, with a key, instead of first and without one.
\<close>

theorem unpack_assignment_expression_buffered:
  "unpack example_engine
     (Some (Node ''arglist''
        [Node ''argument'' [name_leaf ''x'' 2, op_leaf '':='' 4, Leaf ''number'' ''1'' (1, 7)],
         op_leaf '','' 8, name_leaf ''b'' 10])) 0 None =
     ([], [(None, LazyTreeValue 0 (name_leaf ''b'' 10)),
           (Some ''x'', LazyTreeValue 0 (Leaf ''number'' ''1'' (1, 7)))], None)"
  by code_simp




text \<open>
  Claim C3, as the code has it. The issue is reported only when \<^verbatim>\<open>unpack\<close> was given a
  \<^verbatim>\<open>funcdef\<close>: without one, a double-star argument whose candidate is no mapping contributes
  nothing and nothing is reported.
\<close>

theorem unpack_star_star_counterexample:
  "infer_node example_engine 1 (name_leaf ''d'' 17) = [ValueRef 2]
   \<and> class_of example_engine (ValueRef 2) = OtherValue
   \<and> unpack example_engine
       (Some (Node ''argument'' [op_leaf ''**'' 15, name_leaf ''d'' 17])) 1 None = ([], [], None)"
  by code_simp

text \<open>
  Claim C3, amended. For every double-star argument, each inferred candidate is treated on
  its own, in order: a sequence of array type \<^verbatim>\<open>dict\<close> contributes one \<open>(key, value)\<close> pair per
  item of \<^verbatim>\<open>exact_key_items()\<close> and no issue; a compiled instance named \<^verbatim>\<open>dict\<close> contributes
  nothing and no issue; any other candidate contributes nothing and is reported as exactly
  one \<^verbatim>\<open>type-error-star-star\<close> issue when \<^verbatim>\<open>unpack\<close> was given a \<^verbatim>\<open>funcdef\<close>, and as none when it was
  not. The argument never raises, so the remaining arguments are unpacked after it.
\<close>

theorem unpack_star_star:
  "unpack_el E context funcdef (2, el) =
     (concat (map (\<lambda>a.
        if class_of E a = CompiledInstance ''dict'' then []
        else if class_of E a = Sequence ''dict'' then []
        else (case funcdef of
                None \<Rightarrow> []
              | Some name \<Rightarrow> [Issue context ''type-error-star-star'' el name a]))
        (infer_node E context el)),
      concat (map (\<lambda>a.
        if class_of E a = CompiledInstance ''dict'' then []
        else if class_of E a = Sequence ''dict''
        then map (\<lambda>(key, vals). (Some key, vals)) (exact_key_items E a)
        else [])
        (infer_node E context el)),
      [], None)
   \<and> unpack_items E context funcdef ((2, el) # items) =
     (case unpack_items E context funcdef items of
        (iss, ys, named, err) \<Rightarrow>
          (fst (unpack_el E context funcdef (2, el)) @ iss,
           fst (snd (unpack_el E context funcdef (2, el))) @ ys, named, err))
   \<and> unpack E (Some (Node ''argument'' [Leaf ''operator'' ''**'' p, el])) context funcdef =
     (fst (unpack_el E context funcdef (2, el)),
      fst (snd (unpack_el E context funcdef (2, el))), None)"
proof (intro conjI)
  let ?dicts = "map (\<lambda>dct. star_star_dict E context dct el funcdef) (infer_node E context el)"
  have f: "map fst ?dicts = map (\<lambda>a.
        if class_of E a = CompiledInstance ''dict'' then []
        else if class_of E a = Sequence ''dict'' then []
        else (case funcdef of
                None \<Rightarrow> []
              | Some name \<Rightarrow> [Issue context ''type-error-star-star'' el name a]))
        (infer_node E context el)"
    by (simp add: star_star_dict_def)
  have s: "map (\<lambda>d. map (\<lambda>(key, vals). (Some key, vals)) (snd d)) ?dicts = map (\<lambda>a.
        if class_of E a = CompiledInstance ''dict'' then []
        else if class_of E a = Sequence ''dict''
        then map (\<lambda>(key, vals). (Some key, vals)) (exact_key_items E a)
        else [])
        (infer_node E context el)"
    by (simp add: star_star_dict_def)
  have u: "unpack_el E context funcdef (2, el) =
      (concat (map fst ?dicts),
       concat (map (\<lambda>d. map (\<lambda>(key, vals). (Some key, vals)) (snd d)) ?dicts), [], None)"
    by (simp add: unpack_el_def Let_def)
  show el: "unpack_el E context funcdef (2, el) =
     (concat (map (\<lambda>a.
        if class_of E a = CompiledInstance ''dict'' then []
        else if class_of E a = Sequence ''dict'' then []
        else (case funcdef of
                None \<Rightarrow> []
              | Some name \<Rightarrow> [Issue context ''type-error-star-star'' el name a]))
        (infer_node E context el)),
      concat (map (\<lambda>a.
        if class_of E a = CompiledInstance ''dict'' then []
        else if class_of E a = Sequence ''dict''
        then map (\<lambda>(key, vals). (Some key, vals)) (exact_key_items E a)
        else [])
        (infer_node E context el)),
      [], None)"
    unfolding u f s ..
  obtain i y where iy: "unpack_el E context funcdef (2, el) = (i, y, [], None)"
    using el by blast
  show "unpack_items E context funcdef ((2, el) # items) =
     (case unpack_items E context funcdef items of
        (iss, ys, named, err) \<Rightarrow>
          (fst (unpack_el E context funcdef (2, el)) @ iss,
           fst (snd (unpack_el E context funcdef (2, el))) @ ys, named, err))"
    using iy by (simp split: prod.splits)
  have "unpack_arglist (Some (Node ''argument'' [Leaf ''operator'' ''**'' p, el])) = ([(2, el)], None)"
    by (simp add: unpack_arglist_def is_star_def yield_then_def)
  then show "unpack E (Some (Node ''argument'' [Leaf ''operator'' ''**'' p, el])) context funcdef =
     (fst (unpack_el E context funcdef (2, el)),
      fst (snd (unpack_el E context funcdef (2, el))), None)"
    using iy by (simp add: unpack_def)
qed

theorem unpack_star_star_witness:
  "unpack_el example_engine 0 (Some ''f'') (2, name_leaf ''d'' 17) =
     ([], [(Some ''a'', LazyKnownValue (ValueRef 7)), (Some ''b'', LazyKnownValue (ValueRef 8))],
      [], None)
   \<and> unpack_el example_engine 2 (Some ''f'') (2, name_leaf ''d'' 17) = ([], [], [], None)
   \<and> unpack_el example_engine 1 (Some ''f'') (2, name_leaf ''d'' 17) =
     ([Issue 1 ''type-error-star-star'' (name_leaf ''d'' 17) ''f'' (ValueRef 2)], [], [], None)
   \<and> unpack_el example_engine 1 None (2, name_leaf ''d'' 17) = ([], [], [], None)"
  using unpack_star_star[of example_engine 0 "Some ''f''" "name_leaf ''d'' 17" "[]" "(1, 15)"]
    unpack_star_star[of example_engine 2 "Some ''f''" "name_leaf ''d'' 17" "[]" "(1, 15)"]
    unpack_star_star[of example_engine 1 "Some ''f''" "name_leaf ''d'' 17" "[]" "(1, 15)"]
    unpack_star_star[of example_engine 1 None "name_leaf ''d'' 17" "[]" "(1, 15)"]
  by (simp add: example_engine_def name_leaf_def)

text \<open>
  Claim C10. Without a \<^verbatim>\<open>funcdef\<close>, \<^verbatim>\<open>unpack\<close> reports no issue at all, whatever the arguments
  are; a single-star argument whose candidates have no \<^verbatim>\<open>py__iter__\<close> and a double-star
  argument whose candidates are no dictionary sequences still contribute no entry. With a
  \<^verbatim>\<open>funcdef\<close>, \<^verbatim>\<open>_iterate_star_args\<close> reports \<^verbatim>\<open>type-error-star\<close> for a candidate with an empty
  \<^verbatim>\<open>__iter__\<close> lookup and \<^verbatim>\<open>_star_star_dict\<close> reports \<^verbatim>\<open>type-error-star-star\<close> for a candidate
  that is neither kind of dictionary.
\<close>

theorem unpack_issues_need_funcdef:
  "fst (unpack E argument_node context None) = []
   \<and> ((\<forall>a \<in> set (infer_node E context el). py_iter E a = None) \<longrightarrow>
        unpack_el E context None (1, el) = ([], [], [], None))
   \<and> ((\<forall>a \<in> set (infer_node E context el).
          class_of E a \<noteq> Sequence ''dict'') \<longrightarrow>
        unpack_el E context None (2, el) = ([], [], [], None))
   \<and> (py_getattribute E a ''__iter__'' = [] \<longrightarrow>
        fst (iterate_star_args E context a el (Some name)) =
          [Issue context ''type-error-star'' el name a])
   \<and> (class_of E a \<noteq> Sequence ''dict'' \<and> class_of E a \<noteq> CompiledInstance ''dict'' \<longrightarrow>
        fst (star_star_dict E context a el (Some name)) =
          [Issue context ''type-error-star-star'' el name a])"
proof (intro conjI impI)
  show "fst (unpack E argument_node context None) = []"
    using unpack_items_no_funcdef[of E "context" "fst (unpack_arglist argument_node)"]
    by (auto simp: unpack_def split: prod.splits option.splits)
next
  assume h: "\<forall>a \<in> set (infer_node E context el). py_iter E a = None"
  let ?its = "map (\<lambda>a. iterate_star_args E context a el None) (infer_node E context el)"
  have z: "zip_longest (map snd ?its) = []"
    by (rule zip_longest_all_empty) (use h in \<open>auto simp: iterate_star_args_def\<close>)
  have i: "concat (map fst ?its) = []"
    by (auto simp: iterate_star_args_def)
  from z i show "unpack_el E context None (1, el) = ([], [], [], None)"
    by (simp add: unpack_el_def Let_def)
next
  assume h: "\<forall>a \<in> set (infer_node E context el). class_of E a \<noteq> Sequence ''dict''"
  have "\<And>a. a \<in> set (infer_node E context el) \<Longrightarrow>
      star_star_dict E context a el None = ([], [])"
    using h by (auto simp: star_star_dict_def)
  then show "unpack_el E context None (2, el) = ([], [], [], None)"
    by (simp add: unpack_el_def Let_def)
qed (auto simp: iterate_star_args_def star_star_dict_def)

theorem unpack_issues_need_funcdef_witness:
  "fst (unpack example_engine (Some example_arglist) 1 None) = []
   \<and> unpack_el example_engine 1 None (1, name_leaf ''xs'' 11) = ([], [], [], None)
   \<and> unpack_el example_engine 1 None (2, name_leaf ''d'' 17) = ([], [], [], None)
   \<and> fst (iterate_star_args example_engine 1 (ValueRef 2) (name_leaf ''xs'' 11) (Some ''f'')) =
       [Issue 1 ''type-error-star'' (name_leaf ''xs'' 11) ''f'' (ValueRef 2)]
   \<and> fst (star_star_dict example_engine 1 (ValueRef 2) (name_leaf ''d'' 17) (Some ''f'')) =
       [Issue 1 ''type-error-star-star'' (name_leaf ''d'' 17) ''f'' (ValueRef 2)]"
  using unpack_issues_need_funcdef[of example_engine "Some example_arglist" 1
      "name_leaf ''xs'' 11" "ValueRef 2" "''f''"]
    unpack_issues_need_funcdef[of example_engine "Some example_arglist" 1
      "name_leaf ''d'' 17" "ValueRef 2" "''f''"]
  by (simp add: example_engine_def name_leaf_def)

section \<open>Properties of the argument clinic\<close>

lemma parse_loop_step:
  assumes "re_match s = Some (g1, g2, rest)"
  shows "parse_loop allow_kwargs optional s =
     (if g2 = None \<or> g2 = Some [] then parse_loop True optional rest
      else
        (case parse_loop (allow_kwargs \<or> count_list (the g2) CHR ''*'' \<noteq> 0)
                (optional \<or> g1 \<noteq> None) rest of
           Inl e \<Rightarrow> Inl e
         | Inr ps \<Rightarrow>
             Inr ((drop (count_list (the g2) CHR ''*'') (the g2), optional \<or> g1 \<noteq> None,
                   allow_kwargs, count_list (the g2) CHR ''*'') # ps)))"
proof -
  from re_match_shorter[OF assms] have "s \<noteq> []" by auto
  with assms show ?thesis
    by (subst parse_loop.simps) (auto simp: Let_def split: sum.splits)
qed

lemma parse_loop_kwargs_sticky:
  "allow_kwargs \<Longrightarrow> parse_loop allow_kwargs optional s = Inr ps \<Longrightarrow>
   \<forall>p \<in> set ps. param_allow_kwargs p"
proof (induction allow_kwargs optional s arbitrary: ps rule: parse_loop.induct)
  case (1 allow_kwargs optional s)
  show ?case
  proof (cases "s = []")
    case True
    with "1.prems" show ?thesis by (subst (asm) parse_loop.simps) simp
  next
    case False
    with "1.prems" obtain g1 g2 rest where m: "re_match s = Some (g1, g2, rest)"
      by (subst (asm) parse_loop.simps) (auto split: option.splits)
    show ?thesis
    proof (cases "g2 = None \<or> g2 = Some []")
      case True
      with "1.prems" m have "parse_loop True optional rest = Inr ps"
        by (simp add: parse_loop_step[OF m])
      with "1.IH"(1)[OF False m refl refl True] show ?thesis by simp
    next
      case g: False
      let ?stars = "count_list (the g2) CHR ''*''"
      from "1.prems" m g obtain ps' where
        r: "parse_loop (allow_kwargs \<or> ?stars \<noteq> 0) (optional \<or> g1 \<noteq> None) rest = Inr ps'"
        and ps: "ps = (drop ?stars (the g2), optional \<or> g1 \<noteq> None, allow_kwargs, ?stars) # ps'"
        by (auto simp: parse_loop_step[OF m] split: sum.splits)
      from "1.IH"(2)[OF False m refl refl g refl refl refl _ r] "1.prems"(1)
      have "\<forall>p \<in> set ps'. param_allow_kwargs p" by simp
      with ps "1.prems"(1) show ?thesis by (simp add: param_allow_kwargs_def)
    qed
  qed
qed

lemma parse_loop_optional_sticky:
  "optional \<Longrightarrow> parse_loop allow_kwargs optional s = Inr ps \<Longrightarrow>
   \<forall>p \<in> set ps. param_optional p"
proof (induction allow_kwargs optional s arbitrary: ps rule: parse_loop.induct)
  case (1 allow_kwargs optional s)
  show ?case
  proof (cases "s = []")
    case True
    with "1.prems" show ?thesis by (subst (asm) parse_loop.simps) simp
  next
    case False
    with "1.prems" obtain g1 g2 rest where m: "re_match s = Some (g1, g2, rest)"
      by (subst (asm) parse_loop.simps) (auto split: option.splits)
    show ?thesis
    proof (cases "g2 = None \<or> g2 = Some []")
      case True
      with "1.prems" m have "parse_loop True optional rest = Inr ps"
        by (simp add: parse_loop_step[OF m])
      with "1.IH"(1)[OF False m refl refl True "1.prems"(1)] show ?thesis by simp
    next
      case g: False
      let ?stars = "count_list (the g2) CHR ''*''"
      from "1.prems" m g obtain ps' where
        r: "parse_loop (allow_kwargs \<or> ?stars \<noteq> 0) (optional \<or> g1 \<noteq> None) rest = Inr ps'"
        and ps: "ps = (drop ?stars (the g2), optional \<or> g1 \<noteq> None, allow_kwargs, ?stars) # ps'"
        by (auto simp: parse_loop_step[OF m] split: sum.splits)
      from "1.IH"(2)[OF False m refl refl g refl refl refl _ r] "1.prems"(1)
      have "\<forall>p \<in> set ps'. param_optional p" by simp
      with ps "1.prems"(1) show ?thesis by (simp add: param_optional_def)
    qed
  qed
qed
text \<open>
  Claim C5, as the code has it. The parser accepts neither \<^verbatim>\<open>$\<close> nor a star that no name
  follows: on \<^verbatim>\<open>$self, /, x, *, y\<close> the expression does not match and \<^verbatim>\<open>match.group\<close> raises,
  at the first character, and without the \<^verbatim>\<open>$\<close> at the bare star.
\<close>

theorem clinic_flags_sticky_counterexample:
  "parse_argument_clinic ''$self, /, x, *, y'' = Inl AttributeError
   \<and> parse_argument_clinic ''self, /, x, *, y'' = Inl AttributeError"
  by code_simp

text \<open>
  Claim C5, amended. Whatever the state of the loop and the rest of the string: when the next
  match is a slash, every parameter yielded from there on is keyword-allowed; when it is a
  parameter with an opening bracket, that parameter and every later one are optional; when
  it is a starred parameter, every parameter after it is keyword-allowed. In particular
  \<^verbatim>\<open>self, /, x, *args, y\<close> marks \<^verbatim>\<open>x\<close>, \<^verbatim>\<open>args\<close> and \<^verbatim>\<open>y\<close> as keyword-allowed.
\<close>

theorem clinic_flags_sticky:
  "(re_match s = Some (g1, None, rest) \<and> parse_loop allow_kwargs optional s = Inr ps \<longrightarrow>
      (\<forall>p \<in> set ps. param_allow_kwargs p))
   \<and> (re_match s = Some (Some b, Some word, rest) \<and> parse_loop allow_kwargs optional s = Inr ps \<longrightarrow>
      (\<forall>p \<in> set ps. param_optional p))
   \<and> (re_match s = Some (g1, Some word, rest) \<and> count_list word CHR ''*'' \<noteq> 0 \<and>
       parse_loop allow_kwargs optional s = Inr ps \<longrightarrow>
      (\<forall>p \<in> set (tl ps). param_allow_kwargs p))
   \<and> parse_argument_clinic ''self, /, x, *args, y'' =
       Inr [(''self'', False, False, 0), (''x'', False, True, 0),
            (''args'', False, True, 1), (''y'', False, True, 0)]"
proof (intro conjI impI)
  assume a: "re_match s = Some (g1, None, rest) \<and> parse_loop allow_kwargs optional s = Inr ps"
  then have "parse_loop True optional rest = Inr ps"
    using parse_loop_step[of s g1 None rest allow_kwargs optional] by simp
  then show "\<forall>p \<in> set ps. param_allow_kwargs p"
    by (rule parse_loop_kwargs_sticky[OF TrueI])
next
  assume a: "re_match s = Some (Some b, Some word, rest) \<and> parse_loop allow_kwargs optional s = Inr ps"
  show "\<forall>p \<in> set ps. param_optional p"
  proof (cases "word = []")
    case True
    with a re_match_word_nonempty[of s "Some b" word rest] show ?thesis by simp
  next
    case False
    with a obtain ps' where
      r: "parse_loop (allow_kwargs \<or> count_list word CHR ''*'' \<noteq> 0) True rest = Inr ps'"
      and ps: "ps = (drop (count_list word CHR ''*'') word, True, allow_kwargs,
          count_list word CHR ''*'') # ps'"
      using parse_loop_step[of s "Some b" "Some word" rest allow_kwargs optional]
      by (auto split: sum.splits)
    from parse_loop_optional_sticky[OF TrueI r] ps show ?thesis
      by (simp add: param_optional_def)
  qed
next
  assume a: "re_match s = Some (g1, Some word, rest) \<and> count_list word CHR ''*'' \<noteq> 0 \<and>
       parse_loop allow_kwargs optional s = Inr ps"
  then have w: "word \<noteq> []" by (cases word) simp_all
  with a obtain ps' where
    r: "parse_loop True (optional \<or> g1 \<noteq> None) rest = Inr ps'"
    and ps: "ps = (drop (count_list word CHR ''*'') word, optional \<or> g1 \<noteq> None, allow_kwargs,
        count_list word CHR ''*'') # ps'"
    using parse_loop_step[of s g1 "Some word" rest allow_kwargs optional]
    by (auto split: sum.splits)
  from parse_loop_kwargs_sticky[OF TrueI r] ps show "\<forall>p \<in> set (tl ps). param_allow_kwargs p"
    by simp
next
  show "parse_argument_clinic ''self, /, x, *args, y'' =
       Inr [(''self'', False, False, 0), (''x'', False, True, 0),
            (''args'', False, True, 1), (''y'', False, True, 0)]"
    by code_simp
qed

theorem clinic_flags_sticky_witness:
  "re_match '', /, x, y'' = Some (None, None, '', x, y'')
   \<and> parse_loop False False '', /, x, y'' = Inr [(''x'', False, True, 0), (''y'', False, True, 0)]
   \<and> list_all param_allow_kwargs [(''x'', False, True, 0), (''y'', False, True, 0)]
   \<and> re_match ''[, default], /'' = Some (Some ''['', Some ''default'', '', /'')
   \<and> parse_loop False False ''[, default], /'' = Inr [(''default'', True, False, 0)]
   \<and> list_all param_optional [(''default'', True, False, 0)]
   \<and> re_match ''*args, y'' = Some (None, Some ''*args'', '', y'')
   \<and> count_list ''*args'' CHR ''*'' = 1
   \<and> parse_loop False False ''*args, y'' = Inr [(''args'', False, False, 1), (''y'', False, True, 0)]
   \<and> list_all param_allow_kwargs (tl [(''args'', False, False, 1), (''y'', False, True, 0)])"
proof -
  have m1: "re_match '', /, x, y'' = Some (None, None, '', x, y'')" by code_simp
  have p1: "parse_loop False False '', /, x, y'' = Inr [(''x'', False, True, 0), (''y'', False, True, 0)]"
    by code_simp
  have m2: "re_match ''[, default], /'' = Some (Some ''['', Some ''default'', '', /'')" by code_simp
  have p2: "parse_loop False False ''[, default], /'' = Inr [(''default'', True, False, 0)]"
    by code_simp
  have m3: "re_match ''*args, y'' = Some (None, Some ''*args'', '', y'')" by code_simp
  have c3: "count_list ''*args'' CHR ''*'' = 1" by code_simp
  then have c3': "count_list ''*args'' CHR ''*'' \<noteq> 0" by simp
  have p3: "parse_loop False False ''*args, y'' = Inr [(''args'', False, False, 1), (''y'', False, True, 0)]"
    by code_simp
  have "\<forall>p \<in> set [(''x'', False, True, 0), (''y'', False, True, 0)]. param_allow_kwargs p"
    using clinic_flags_sticky[where s = "'', /, x, y''" and ?g1.0 = None and rest = "'', x, y''"
        and allow_kwargs = False and optional = False
        and ps = "[(''x'', False, True, 0), (''y'', False, True, 0)]",
        THEN conjunct1, THEN mp, OF conjI[OF m1 p1]] .
  then have l1: "list_all param_allow_kwargs [(''x'', False, True, 0), (''y'', False, True, 0)]"
    by (simp only: list_all_iff)
  have "\<forall>p \<in> set [(''default'', True, False, 0)]. param_optional p"
    using clinic_flags_sticky[where s = "''[, default], /''" and b = "''[''" and word = "''default''"
        and rest = "'', /''" and allow_kwargs = False and optional = False
        and ps = "[(''default'', True, False, 0)]",
        THEN conjunct2, THEN conjunct1, THEN mp, OF conjI[OF m2 p2]] .
  then have l2: "list_all param_optional [(''default'', True, False, 0)]"
    by (simp only: list_all_iff)
  have "\<forall>p \<in> set (tl [(''args'', False, False, 1), (''y'', False, True, 0)]). param_allow_kwargs p"
    using clinic_flags_sticky[where s = "''*args, y''" and ?g1.0 = None and word = "''*args''"
        and rest = "'', y''" and allow_kwargs = False and optional = False
        and ps = "[(''args'', False, False, 1), (''y'', False, True, 0)]",
        THEN conjunct2, THEN conjunct2, THEN conjunct1, THEN mp,
        OF conjI[OF m3 conjI[OF c3' p3]]] .
  then have l3: "list_all param_allow_kwargs (tl [(''args'', False, False, 1), (''y'', False, True, 0)])"
    by (simp only: list_all_iff)
  show ?thesis
    by (intro conjI) (rule m1 p1 l1 m2 p2 l2 m3 c3 p3 l3)+
qed

text \<open>
  Claim C4, as the code has it. The parser has no default values: on \<^verbatim>\<open>sep=None, maxsplit=-1\<close>
  the expression does not match at \<^verbatim>\<open>=\<close> and \<^verbatim>\<open>match.group\<close> raises, so there is nothing to match
  arguments against. And the matcher never looks at arguments beyond its parameters: a third
  positional argument for two optional parameters is left in the stream, and two value sets
  are yielded.
\<close>

theorem clinic_optional_matching_counterexample:
  "parse_argument_clinic ''sep=None, maxsplit=-1'' = Inl AttributeError
   \<and> iterate_argument_clinic example_engine
       (ValuesArguments [[ValueRef 1], [ValueRef 2], [ValueRef 3]])
       [(''sep'', True, False, 0), (''maxsplit'', True, False, 0)] =
     Inr [[ValueRef 1], [ValueRef 2]]"
  by code_simp

text \<open>
  Claim C4, amended. \<^verbatim>\<open>[sep, maxsplit]\<close> parses to two optional parameters. Matched against
  no arguments they yield two empty value sets and nothing is raised; matched against three
  positional arguments they yield the value sets of the first two and nothing is raised,
  the third argument being ignored.
\<close>

theorem clinic_optional_matching:
  "parse_argument_clinic ''[sep, maxsplit]'' =
     Inr [(''sep'', True, False, 0), (''maxsplit'', True, False, 0)]
   \<and> iterate_argument_clinic E (ValuesArguments [])
       [(''sep'', True, False, 0), (''maxsplit'', True, False, 0)] = Inr [NO_VALUES, NO_VALUES]
   \<and> iterate_argument_clinic E (TreeArguments None c t)
       [(''sep'', True, False, 0), (''maxsplit'', True, False, 0)] = Inr [NO_VALUES, NO_VALUES]
   \<and> iterate_argument_clinic E (ValuesArguments [v1, v2, v3])
       [(''sep'', True, False, 0), (''maxsplit'', True, False, 0)] =
     Inr [lazy_infer E (LazyKnownValues v1), lazy_infer E (LazyKnownValues v2)]"
proof (intro conjI)
  show "parse_argument_clinic ''[sep, maxsplit]'' =
     Inr [(''sep'', True, False, 0), (''maxsplit'', True, False, 0)]"
    by code_simp
qed (simp_all add: iterate_argument_clinic_def yield_value_def unpack_def unpack_arglist_def
    Let_def)
text \<open>
  Claim C6. Whenever the matching of the arguments against the clinic parameters raises
  \<^verbatim>\<open>ParamIssue\<close>, the wrapper returns \<^verbatim>\<open>NO_VALUES\<close>, whatever the wrapped function is: it is not
  called. The wrapper itself raises \<^verbatim>\<open>ParamIssue\<close> only when the matching succeeded and the
  wrapped function, called in the \<^verbatim>\<open>else\<close> branch, raised it. The matching raises it for a
  plain parameter when the next entry has a key, when no entry is left and the parameter is
  not optional, and when the entry infers to nothing and the parameter is not optional.
\<close>

theorem clinic_param_issue_caught:
  "(kwargs ''arguments'' = Some (ArgumentsObj a) \<and>
    iterate_argument_clinic E a clinic_args = Inl ParamIssue \<longrightarrow>
      wrapper E clinic_args keep_arguments_param func context args kwargs = Inr NO_VALUES)
   \<and> (wrapper E clinic_args keep_arguments_param func context args kwargs = Inl ParamIssue \<longrightarrow>
      (\<exists>a' value_sets kw. kwargs ''arguments'' = Some (ArgumentsObj a') \<and>
         iterate_argument_clinic E a' clinic_args = Inr value_sets \<and>
         func context (args @ map ValueSetObj value_sets) kw = Inl ParamIssue))
   \<and> (stars \<noteq> 1 \<and> stars \<noteq> 2 \<longrightarrow>
      iterate_params E ((Some key, argument) # rest) err
        ((name, optional, allow_kwargs, stars) # parameters) = Inl ParamIssue)
   \<and> (stars \<noteq> 1 \<and> stars \<noteq> 2 \<longrightarrow>
      iterate_params E [] None ((name, False, allow_kwargs, stars) # parameters) = Inl ParamIssue)
   \<and> (stars \<noteq> 1 \<and> stars \<noteq> 2 \<and> lazy_infer E argument = [] \<longrightarrow>
      iterate_params E ((None, argument) # rest) err
        ((name, False, allow_kwargs, stars) # parameters) = Inl ParamIssue)"
proof (intro conjI impI)
  assume "kwargs ''arguments'' = Some (ArgumentsObj a) \<and>
    iterate_argument_clinic E a clinic_args = Inl ParamIssue"
  then show "wrapper E clinic_args keep_arguments_param func context args kwargs = Inr NO_VALUES"
    by (simp add: wrapper_def Let_def)
next
  assume w: "wrapper E clinic_args keep_arguments_param func context args kwargs = Inl ParamIssue"
  then obtain obj where k: "kwargs ''arguments'' = Some obj"
    by (cases "kwargs ''arguments''") (simp_all add: wrapper_def)
  with w obtain a' where obj: "obj = ArgumentsObj a'"
    by (cases obj) (simp_all add: wrapper_def Let_def)
  show "\<exists>a' value_sets kw. kwargs ''arguments'' = Some (ArgumentsObj a') \<and>
         iterate_argument_clinic E a' clinic_args = Inr value_sets \<and>
         func context (args @ map ValueSetObj value_sets) kw = Inl ParamIssue"
  proof (cases "iterate_argument_clinic E a' clinic_args")
    case (Inl e)
    with w k obj show ?thesis
      by (cases "e = ParamIssue") (simp_all add: wrapper_def Let_def NO_VALUES_def)
  next
    case (Inr value_sets)
    with w k obj show ?thesis
      by (cases keep_arguments_param) (auto simp: wrapper_def Let_def)
  qed
qed (simp_all add: Let_def)

theorem clinic_param_issue_caught_witness:
  "iterate_argument_clinic example_engine (ValuesArguments []) [(''obj'', False, False, 0)] =
     Inl ParamIssue
   \<and> wrapper example_engine [(''obj'', False, False, 0)] False (\<lambda>c a k. Inr [ValueRef 1]) 0 []
       [''arguments'' \<mapsto> ArgumentsObj (ValuesArguments [])] = Inr NO_VALUES
   \<and> wrapper example_engine [] False (\<lambda>c a k. Inl ParamIssue) 0 []
       [''arguments'' \<mapsto> ArgumentsObj (ValuesArguments [])] = Inl ParamIssue
   \<and> (\<exists>a' value_sets kw.
         [''arguments'' \<mapsto> ArgumentsObj (ValuesArguments [])] ''arguments'' = Some (ArgumentsObj a') \<and>
         iterate_argument_clinic example_engine a' [] = Inr value_sets \<and>
         (\<lambda>c a k. Inl ParamIssue :: py_error + val list) (0::nat)
           ([] @ map ValueSetObj value_sets) (kw :: kwargs) = Inl ParamIssue)
   \<and> iterate_params example_engine [(Some ''k'', LazyKnownValues [ValueRef 1])] None
       [(''obj'', True, False, 0)] = Inl ParamIssue
   \<and> iterate_params example_engine [(None, LazyKnownValues [])] None
       [(''obj'', False, False, 0)] = Inl ParamIssue"
proof -
  let ?kw = "[''arguments'' \<mapsto> ArgumentsObj (ValuesArguments [])]"
  have k: "?kw ''arguments'' = Some (ArgumentsObj (ValuesArguments []))" by simp
  have i: "iterate_argument_clinic example_engine (ValuesArguments []) [(''obj'', False, False, 0)] =
     Inl ParamIssue"
    by (simp add: iterate_argument_clinic_def)
  have w1: "wrapper example_engine [(''obj'', False, False, 0)] False (\<lambda>c a k. Inr [ValueRef 1]) 0 []
       ?kw = Inr NO_VALUES"
    using clinic_param_issue_caught[of "?kw" "ValuesArguments []" example_engine
        "[(''obj'', False, False, 0)]" False "\<lambda>c a k. Inr [ValueRef 1]" 0 "[]",
        THEN conjunct1, THEN mp, OF conjI[OF k i]] .
  have w2: "wrapper example_engine [] False (\<lambda>c a k. Inl ParamIssue) 0 [] ?kw = Inl ParamIssue"
    by (simp add: wrapper_def iterate_argument_clinic_def Let_def)
  have e: "\<exists>a' value_sets kw.
         ?kw ''arguments'' = Some (ArgumentsObj a') \<and>
         iterate_argument_clinic example_engine a' [] = Inr value_sets \<and>
         (\<lambda>c a k. Inl ParamIssue :: py_error + val list) (0::nat)
           ([] @ map ValueSetObj value_sets) (kw :: kwargs) = Inl ParamIssue"
    using clinic_param_issue_caught[of "?kw" _ example_engine "[]" False
        "\<lambda>c a k. Inl ParamIssue" 0 "[]",
        THEN conjunct2, THEN conjunct1, THEN mp, OF w2] .
  have s0: "(0::nat) \<noteq> 1 \<and> (0::nat) \<noteq> 2" by simp
  have p1: "iterate_params example_engine [(Some ''k'', LazyKnownValues [ValueRef 1])] None
       [(''obj'', True, False, 0)] = Inl ParamIssue"
    using clinic_param_issue_caught[where E = example_engine and stars = 0 and key = "''k''"
        and argument = "LazyKnownValues [ValueRef 1]" and rest = "[]" and err = None
        and name = "''obj''" and optional = True and allow_kwargs = False and parameters = "[]",
        THEN conjunct2, THEN conjunct2, THEN conjunct1, THEN mp, OF s0] .
  have li: "lazy_infer example_engine (LazyKnownValues []) = []"
    by (simp add: example_engine_def)
  have p2: "iterate_params example_engine [(None, LazyKnownValues [])] None
       [(''obj'', False, False, 0)] = Inl ParamIssue"
    using clinic_param_issue_caught[where E = example_engine and stars = 0
        and argument = "LazyKnownValues []" and rest = "[]" and err = None
        and name = "''obj''" and allow_kwargs = False and parameters = "[]",
        THEN conjunct2, THEN conjunct2, THEN conjunct2, THEN conjunct2, THEN mp,
        OF conjI[OF conjunct1[OF s0] conjI[OF conjunct2[OF s0] li]]] .
  show ?thesis
    by (intro conjI) (rule i w1 w2 e p1 p2)+
qed

section \<open>Properties of \<^verbatim>\<open>get_calling_nodes\<close>\<close>

lemma calling_loop_returns:
  assumes fin: "finite S"
    and closed: "\<forall>h \<in> S. \<forall>h'. var_args_of goto heap h = Some h' \<longrightarrow> h' \<in> S"
  shows "h \<in> S \<Longrightarrow> \<exists>r. calling_loop goto heap old h = Some r"
proof (induction "card (S - set old)" arbitrary: old h rule: less_induct)
  case less
  show ?case
  proof (cases "h \<in> set old")
    case True
    then show ?thesis by (subst calling_loop.simps) simp
  next
    case False
    have visited: "\<exists>r. calling_loop goto heap (old @ [h]) h = Some r"
      by (subst calling_loop.simps) simp
    show ?thesis
    proof (cases "calling_pass goto heap h")
      case NotTree
      with False show ?thesis by (subst calling_loop.simps) simp
    next
      case (Raises e)
      with False show ?thesis by (subst calling_loop.simps) simp
    next
      case ReturnEmpty
      with False show ?thesis by (subst calling_loop.simps) simp
    next
      case Unchanged
      with False visited show ?thesis by (subst calling_loop.simps) simp
    next
      case (Advance h')
      then have "var_args_of goto heap h = Some h'" by (simp add: var_args_of_def)
      with closed less.prems have h': "h' \<in> S" by blast
      have "S - set (old @ [h]) \<subset> S - set old"
        using less.prems False by auto
      then have "card (S - set (old @ [h])) < card (S - set old)"
        using fin by (intro psubset_card_mono) auto
      from less.hyps[OF this h'] obtain r where
        "calling_loop goto heap (old @ [h]) h' = Some r" by blast
      with False Advance show ?thesis by (subst calling_loop.simps) simp
    qed
  qed
qed

text \<open>
  Claim C8. When the objects that can be reached from \<^verbatim>\<open>self\<close> by following \<^verbatim>\<open>var_args\<close> are
  finitely many, \<^verbatim>\<open>get_calling_nodes\<close> returns, cycles included: an object in
  \<^verbatim>\<open>old_arguments_list\<close> ends the loop, and every pass adds one. On the chain of three
  forwarded \<^verbatim>\<open>*args\<close> call sites it returns the one call site at the head of the chain,
  \<^verbatim>\<open>f(1, 2)\<close> with its context; on the cycle of two it returns the call site it started from.
\<close>

theorem get_calling_nodes_terminates:
  "(finite S \<and> self \<in> S \<and> (\<forall>h \<in> S. \<forall>h'. var_args_of goto heap h = Some h' \<longrightarrow> h' \<in> S) \<longrightarrow>
      (\<exists>r. get_calling_nodes goto heap self = Some r))
   \<and> get_calling_nodes chain_goto chain_heap 3 = Some (Inr [(Some 0, original_node)])
   \<and> get_calling_nodes cycle_goto cycle_heap 0 = Some (Inr [(Some 0, forwarding_node)])"
proof (intro conjI impI)
  assume a: "finite S \<and> self \<in> S \<and>
    (\<forall>h \<in> S. \<forall>h'. var_args_of goto heap h = Some h' \<longrightarrow> h' \<in> S)"
  then have "\<exists>r. calling_loop goto heap [] self = Some r"
    using calling_loop_returns[of S goto heap self "[]"] by blast
  then obtain r where r: "calling_loop goto heap [] self = Some r" by blast
  show "\<exists>r. get_calling_nodes goto heap self = Some r"
    unfolding get_calling_nodes_def r
    by (cases r) (auto split: option.splits)
next
  show "get_calling_nodes chain_goto chain_heap 3 = Some (Inr [(Some 0, original_node)])"
    by code_simp
next
  show "get_calling_nodes cycle_goto cycle_heap 0 = Some (Inr [(Some 0, forwarding_node)])"
    by code_simp
qed

theorem get_calling_nodes_terminates_witness:
  "finite {0, 1, 2, 3 :: nat}
   \<and> (3::nat) \<in> {0, 1, 2, 3}
   \<and> list_all (\<lambda>h. case var_args_of chain_goto chain_heap h of
         None \<Rightarrow> True | Some h' \<Rightarrow> h' \<in> {0, 1, 2, 3 :: nat}) [0, 1, 2, 3]
   \<and> (\<exists>r. get_calling_nodes chain_goto chain_heap 3 = Some r)
   \<and> finite {0, 1 :: nat}
   \<and> (0::nat) \<in> {0, 1}
   \<and> var_args_of cycle_goto cycle_heap 0 = Some 1
   \<and> var_args_of cycle_goto cycle_heap 1 = Some 0
   \<and> (\<exists>r. get_calling_nodes cycle_goto cycle_heap 0 = Some r)"
proof -
  have v0: "var_args_of chain_goto chain_heap 0 = None" by code_simp
  have v1: "var_args_of chain_goto chain_heap 1 = Some 0" by code_simp
  have v2: "var_args_of chain_goto chain_heap 2 = Some 1" by code_simp
  have v3: "var_args_of chain_goto chain_heap 3 = Some 2" by code_simp
  have w0: "var_args_of cycle_goto cycle_heap 0 = Some 1" by code_simp
  have w1: "var_args_of cycle_goto cycle_heap 1 = Some 0" by code_simp
  have cl: "\<forall>h \<in> {0, 1, 2, 3 :: nat}. \<forall>h'. var_args_of chain_goto chain_heap h = Some h' \<longrightarrow>
      h' \<in> {0, 1, 2, 3 :: nat}"
    using v0 v1 v2 v3 by simp
  have cy: "\<forall>h \<in> {0, 1 :: nat}. \<forall>h'. var_args_of cycle_goto cycle_heap h = Some h' \<longrightarrow>
      h' \<in> {0, 1 :: nat}"
    using w0 w1 by simp
  have f1: "finite {0, 1, 2, 3 :: nat}" and i1: "(3::nat) \<in> {0, 1, 2, 3}" by simp_all
  have f2: "finite {0, 1 :: nat}" and i2: "(0::nat) \<in> {0, 1}" by simp_all
  have e1: "\<exists>r. get_calling_nodes chain_goto chain_heap 3 = Some r"
    using get_calling_nodes_terminates[of "{0, 1, 2, 3}" 3 chain_goto chain_heap,
        THEN conjunct1, THEN mp, OF conjI[OF f1 conjI[OF i1 cl]]] .
  have e2: "\<exists>r. get_calling_nodes cycle_goto cycle_heap 0 = Some r"
    using get_calling_nodes_terminates[of "{0, 1}" 0 cycle_goto cycle_heap,
        THEN conjunct1, THEN mp, OF conjI[OF f2 conjI[OF i2 cy]]] .
  have la: "list_all (\<lambda>h. case var_args_of chain_goto chain_heap h of
         None \<Rightarrow> True | Some h' \<Rightarrow> h' \<in> {0, 1, 2, 3 :: nat}) [0, 1, 2, 3]"
    using v0 v1 v2 v3 by simp
  show ?thesis
    by (intro conjI) (rule f1 i1 la e1 f2 i2 w0 w1 e2)+
qed

end
